theory Spec2Isabelle
  imports
    Main
    "HOL-Library.Char_ord"
    "HOL-Library.List_Lexorder"
    "HOL-Library.Product_Lexorder"
    "HOL-Library.Multiset"
begin

section \<open>Python strings\<close>

text \<open>
  A Python \<open>str\<close> is modelled as a \<open>string\<close> (a list of \<open>char\<close>), each \<open>char\<close>
  standing for the code point of the same number, so the model covers the texts whose
  code points are below 256. The definitions below follow the behaviour of the
  interpreter's \<open>str\<close> methods on these code points.
\<close>

abbreviation NL :: char where "NL \<equiv> CHR 0x0A"
abbreviation CR :: char where "CR \<equiv> CHR 0x0D"

definition py_isspace :: "char \<Rightarrow> bool" where
  \<comment> \<open>\<open>str.isspace\<close> on one code point below 256: tab, LF, VT, FF, CR, FS, GS, RS, US,
      space, NEL and no-break space.\<close>
  "py_isspace c \<longleftrightarrow>
     (of_char c :: nat) \<in> {9, 10, 11, 12, 13, 28, 29, 30, 31, 32, 133, 160}"

definition py_islinebreak :: "char \<Rightarrow> bool" where
  \<comment> \<open>the line boundaries of \<open>str.splitlines\<close> below 256: LF, VT, FF, CR, FS, GS, RS, NEL\<close>
  "py_islinebreak c \<longleftrightarrow> (of_char c :: nat) \<in> {10, 11, 12, 13, 28, 29, 30, 133}"

definition py_lstrip :: "string \<Rightarrow> string" where
  "py_lstrip s = dropWhile py_isspace s"

definition py_rstrip :: "string \<Rightarrow> string" where
  "py_rstrip s = rev (dropWhile py_isspace (rev s))"

definition py_strip :: "string \<Rightarrow> string" where
  "py_strip s = py_rstrip (py_lstrip s)"

text \<open>\<open>s.split(sep)\<close> for a separator of one character: always at least one field.\<close>

fun py_split :: "char \<Rightarrow> string \<Rightarrow> string list" where
  "py_split sep [] = [[]]"
| "py_split sep (c # cs) =
     (if c = sep then [] # py_split sep cs
      else (case py_split sep cs of
              [] \<Rightarrow> [[c]]
            | f # fs \<Rightarrow> (c # f) # fs))"

text \<open>
  \<open>s.splitlines()\<close>: the text is cut at every line boundary, CR LF counting as one,
  the boundaries are not kept, and no empty last line is produced after a final
  boundary. The first argument is the line read so far, reversed.
\<close>

fun splitlines_from :: "string \<Rightarrow> string \<Rightarrow> string list" where
  "splitlines_from cur [] = (if cur = [] then [] else [rev cur])"
| "splitlines_from cur (c # cs) =
     (if c = CR then
        (case cs of
           [] \<Rightarrow> [rev cur]
         | d # ds \<Rightarrow> if d = NL then rev cur # splitlines_from [] ds
                     else rev cur # splitlines_from [] (d # ds))
      else if py_islinebreak c then rev cur # splitlines_from [] cs
      else splitlines_from (c # cur) cs)"

definition py_splitlines :: "string \<Rightarrow> string list" where
  "py_splitlines s = splitlines_from [] s"

definition py_startswith :: "string \<Rightarrow> string \<Rightarrow> bool" where
  "py_startswith s p \<longleftrightarrow> take (length p) s = p"

section \<open>The task mini-language: \<open>parse_tasks\<close>\<close>

record entry =
  date :: string
  headline :: string
  context_str :: string

text \<open>
  The body of the \<open>for\<close> loop of \<open>parse_tasks\<close> on one line: \<open>None\<close> is a
  \<open>continue\<close>, \<open>Some e\<close> is \<open>entries.append(e)\<close>.
\<close>

definition parse_task_line :: "string \<Rightarrow> entry option" where
  "parse_task_line l =
     (let line = py_strip l in
      if line = [] \<or> py_startswith line ''#'' then None
      else
        let parts = map py_strip (py_split (CHR '';'') line) in
        if length parts < 2 then None
        else
          let date_str = parts ! 0; headline = parts ! 1 in
          if date_str = [] \<or> headline = [] then None
          else
            let context = (if length parts \<ge> 3 then parts ! 2 else []) in
            Some \<lparr>date = date_str, headline = headline, context_str = context\<rparr>)"

fun parse_tasks_loop :: "entry list \<Rightarrow> string list \<Rightarrow> entry list" where
  "parse_tasks_loop entries [] = entries"
| "parse_tasks_loop entries (l # ls) =
     (case parse_task_line l of
        None \<Rightarrow> parse_tasks_loop entries ls
      | Some e \<Rightarrow> parse_tasks_loop (entries @ [e]) ls)"

definition parse_tasks :: "string \<Rightarrow> entry list" where
  "parse_tasks text = parse_tasks_loop [] (py_splitlines text)"


text \<open>
  The same parser as the specification words it: keep the lines that, trimmed, are
  neither empty nor comments, split them on \<open>;\<close>, trim every field, drop the lines
  with fewer than two fields or an empty date or headline, and build one entry from
  each line kept.
\<close>

definition spec_fields :: "string \<Rightarrow> string list" where
  "spec_fields l = map py_strip (py_split (CHR '';'') (py_strip l))"

definition spec_is_task_line :: "string \<Rightarrow> bool" where
  "spec_is_task_line l \<longleftrightarrow>
     py_strip l \<noteq> [] \<and> \<not> py_startswith (py_strip l) ''#'' \<and>
     length (spec_fields l) \<ge> 2 \<and> spec_fields l ! 0 \<noteq> [] \<and> spec_fields l ! 1 \<noteq> []"

definition spec_entry :: "string \<Rightarrow> entry" where
  "spec_entry l =
     \<lparr>date = spec_fields l ! 0, headline = spec_fields l ! 1,
      context_str = (if length (spec_fields l) \<ge> 3 then spec_fields l ! 2 else [])\<rparr>"

definition spec_parse_tasks :: "string \<Rightarrow> entry list" where
  "spec_parse_tasks text = map spec_entry (filter spec_is_task_line (py_splitlines text))"

section \<open>Exceptions\<close>

text \<open>
  The exception classes the program raises or catches. \<open>URLError\<close> is a subclass of
  \<open>OSError\<close>; \<open>JSONDecodeError\<close> is a subclass of \<open>ValueError\<close>; all of them are
  subclasses of \<open>Exception\<close>. \<open>OtherException\<close> stands for any other subclass of
  \<open>Exception\<close>.
\<close>

datatype py_exn =
  URLError | OSError | JSONDecodeError | KeyError | ValueError | OverflowError
  | AttributeError | OtherException

definition is_OSError :: "py_exn \<Rightarrow> bool" where
  \<comment> \<open>\<open>except (urllib.error.URLError, OSError)\<close>\<close>
  "is_OSError e \<longleftrightarrow> e = URLError \<or> e = OSError"

definition is_transport_or_decode :: "py_exn \<Rightarrow> bool" where
  \<comment> \<open>\<open>except (urllib.error.URLError, OSError, json.JSONDecodeError, KeyError)\<close>\<close>
  "is_transport_or_decode e \<longleftrightarrow>
     e = URLError \<or> e = OSError \<or> e = JSONDecodeError \<or> e = KeyError"

section \<open>More string operations\<close>

text \<open>\<open>sep.join(xs)\<close>\<close>

fun py_join :: "string \<Rightarrow> string list \<Rightarrow> string" where
  "py_join sep [] = []"
| "py_join sep [x] = x"
| "py_join sep (x # y # ys) = x @ sep @ py_join sep (y # ys)"

definition py_rstrip_nl :: "string \<Rightarrow> string" where
  \<comment> \<open>\<open>s.rstrip('\n')\<close>\<close>
  "py_rstrip_nl s = rev (dropWhile (\<lambda>c. c = NL) (rev s))"

text \<open>\<open>s.find(sub)\<close>: the least index at which \<open>sub\<close> occurs, if any.\<close>

fun py_find :: "string \<Rightarrow> string \<Rightarrow> nat option" where
  "py_find sub [] = (if sub = [] then Some 0 else None)"
| "py_find sub (c # cs) =
     (if py_startswith (c # cs) sub then Some 0 else map_option Suc (py_find sub cs))"

text \<open>\<open>xs[a:b]\<close> for \<open>0 \<le> a\<close> and \<open>0 \<le> b\<close>.\<close>

definition py_slice :: "'a list \<Rightarrow> nat \<Rightarrow> nat \<Rightarrow> 'a list" where
  "py_slice xs a b = take (b - a) (drop a xs)"

definition is_digit :: "char \<Rightarrow> bool" where
  "is_digit c \<longleftrightarrow> (48::nat) \<le> of_char c \<and> (of_char c :: nat) \<le> 57"

definition digit_val :: "char \<Rightarrow> nat" where
  "digit_val c = of_char c - 48"

text \<open>
  \<open>int(s)\<close> on a string, in base 10. Whitespace around the number is ignored: the
  ASCII characters tab, LF, VT, FF, CR and space, and the non-ASCII spaces (NEL and the
  no-break space below 256); the separators FS, GS, RS and US are not. One sign is
  allowed, and the digits may be grouped by single underscores. A number of more than
  4300 digits (the interpreter's default limit, counting leading zeros and not the
  underscores) is refused. Every refusal is a \<open>ValueError\<close>.
  \<open>int_digits acc prev_digit s\<close> reads the digits after the first one.
\<close>

definition int_isspace :: "char \<Rightarrow> bool" where
  "int_isspace c \<longleftrightarrow> (of_char c :: nat) \<in> {9, 10, 11, 12, 13, 32, 133, 160}"

definition int_strip :: "string \<Rightarrow> string" where
  "int_strip s = rev (dropWhile int_isspace (rev (dropWhile int_isspace s)))"

definition max_str_digits :: nat where
  "max_str_digits = 4300"

fun int_digits :: "nat \<Rightarrow> bool \<Rightarrow> string \<Rightarrow> nat option" where
  "int_digits acc prev_digit [] = (if prev_digit then Some acc else None)"
| "int_digits acc prev_digit (c # cs) =
     (if is_digit c then int_digits (10 * acc + digit_val c) True cs
      else if c = CHR ''_'' \<and> prev_digit then int_digits acc False cs
      else None)"

definition int_unsigned :: "string \<Rightarrow> nat option" where
  "int_unsigned s =
     (case s of
        [] \<Rightarrow> None
      | c # cs \<Rightarrow> if is_digit c then int_digits (digit_val c) True cs else None)"

definition py_int :: "string \<Rightarrow> py_exn + int" where
  "py_int s =
     (let t = int_strip s;
          r = (case t of
                 [] \<Rightarrow> None
               | c # cs \<Rightarrow>
                   if c = CHR ''-'' then map_option (\<lambda>n. - int n) (int_unsigned cs)
                   else if c = CHR ''+'' then map_option int (int_unsigned cs)
                   else map_option int (int_unsigned t))
      in if length (filter is_digit t) > max_str_digits then Inl ValueError
         else (case r of None \<Rightarrow> Inl ValueError | Some i \<Rightarrow> Inr i))"

section \<open>The sync-item format: \<open>_parse_joplin_item\<close> and \<open>_rebuild_joplin_item\<close>\<close>

definition is_hex :: "char \<Rightarrow> bool" where
  \<comment> \<open>the character class \<open>[a-f0-9]\<close>\<close>
  "is_hex c \<longleftrightarrow> is_digit c \<or> ((97::nat) \<le> of_char c \<and> (of_char c :: nat) \<le> 102)"

definition is_id_line :: "string \<Rightarrow> bool" where
  \<comment> \<open>\<open>re.match(r'^id: [a-f0-9]{32}\s*$', line)\<close> on a line without a line feed\<close>
  "is_id_line l \<longleftrightarrow>
     take 4 l = ''id: '' \<and> length (take 32 (drop 4 l)) = 32 \<and>
     list_all is_hex (take 32 (drop 4 l)) \<and> list_all py_isspace (drop 36 l)"

text \<open>
  \<open>for i in range(1, len(lines)): if re.match(...): metadata_start = i; break\<close>,
  with \<open>metadata_start = len(lines)\<close> when no line matches.
\<close>

function find_metadata_start :: "string list \<Rightarrow> nat \<Rightarrow> nat" where
  "find_metadata_start lines i =
     (if i < length lines then
        (if is_id_line (lines ! i) then i else find_metadata_start lines (Suc i))
      else length lines)"
  by pat_completeness auto
termination
  by (relation "measure (\<lambda>(lines, i). length lines - i)") auto

declare find_metadata_start.simps [simp del]

text \<open>
  The metadata dictionary, as the list of its assignments in order: a later
  assignment to a key overrides an earlier one.
\<close>

definition split_key_value :: "string \<Rightarrow> (string \<times> string) option" where
  \<comment> \<open>\<open>if ':' in line: key, value = line.split(':', 1)\<close>, both stripped\<close>
  "split_key_value line =
     (if CHR '':'' \<in> set line
      then Some (py_strip (takeWhile (\<lambda>c. c \<noteq> CHR '':'') line),
                 py_strip (drop 1 (dropWhile (\<lambda>c. c \<noteq> CHR '':'') line)))
      else None)"

fun collect_metadata :: "(string \<rightharpoonup> string) \<Rightarrow> string list \<Rightarrow> (string \<rightharpoonup> string)" where
  "collect_metadata metadata [] = metadata"
| "collect_metadata metadata (line # ls) =
     (case split_key_value line of
        None \<Rightarrow> collect_metadata metadata ls
      | Some (k, v) \<Rightarrow> collect_metadata (metadata(k \<mapsto> v)) ls)"

definition metadata_get :: "(string \<rightharpoonup> string) \<Rightarrow> string \<Rightarrow> string \<Rightarrow> string" where
  \<comment> \<open>\<open>metadata.get(key, default)\<close>\<close>
  "metadata_get metadata k d = (case metadata k of None \<Rightarrow> d | Some v \<Rightarrow> v)"

text \<open>The two \<open>while\<close> loops that strip blank lines around the body.\<close>

function find_body_start :: "string list \<Rightarrow> nat \<Rightarrow> nat \<Rightarrow> nat" where
  "find_body_start lines metadata_start body_start =
     (if body_start < metadata_start \<and> py_strip (lines ! body_start) = []
      then find_body_start lines metadata_start (Suc body_start)
      else body_start)"
  by pat_completeness auto
termination
  by (relation "measure (\<lambda>(lines, ms, b). ms - b)") auto

function find_body_end :: "string list \<Rightarrow> nat \<Rightarrow> nat \<Rightarrow> nat" where
  "find_body_end lines body_start body_end =
     (if body_end > body_start \<and> py_strip (lines ! (body_end - 1)) = []
      then find_body_end lines body_start (body_end - 1)
      else body_end)"
  by pat_completeness auto
termination
  by (relation "measure (\<lambda>(lines, b, e). e)") auto

declare find_body_start.simps [simp del]
declare find_body_end.simps [simp del]

record parsed_item =
  item_title :: string
  item_body :: string
  item_type :: int
  item_id :: string
  item_parent_id :: string
  item_metadata_lines :: "string list"

definition parse_joplin_item :: "string \<Rightarrow> py_exn + parsed_item" where
  "parse_joplin_item content =
     (let lines = py_split NL (py_rstrip_nl content);
          title = (case lines of [] \<Rightarrow> [] | l # _ \<Rightarrow> l);
          metadata_start = find_metadata_start lines 1;
          metadata = collect_metadata Map.empty (drop metadata_start lines);
          body_start = find_body_start lines metadata_start 1;
          body_end = find_body_end lines body_start metadata_start;
          body = (if body_start < body_end
                  then py_join [NL] (py_slice lines body_start body_end) else []);
          type_str = metadata_get metadata ''type_'' ''0''
      in case py_int (if type_str = [] then ''0'' else type_str) of
           Inl e \<Rightarrow> Inl e
         | Inr t \<Rightarrow>
             Inr \<lparr>item_title = title, item_body = body, item_type = t,
                  item_id = metadata_get metadata ''id'' [],
                  item_parent_id = metadata_get metadata ''parent_id'' [],
                  item_metadata_lines = drop metadata_start lines\<rparr>)"

definition rebuild_joplin_item :: "string \<Rightarrow> string \<Rightarrow> string list \<Rightarrow> string" where
  "rebuild_joplin_item title body metadata_lines =
     (if body \<noteq> []
      then py_join [NL] ([title, [], body, []] @ metadata_lines) @ [NL]
      else py_join [NL] ([title, [], []] @ metadata_lines) @ [NL])"

text \<open>
  The expression \<open>int(metadata.get('type_', '0') or '0')\<close> of \<open>_parse_joplin_item\<close>,
  as a function of the metadata lines.
\<close>

definition item_type_of :: "string list \<Rightarrow> py_exn + int" where
  "item_type_of mlines =
     (let type_str = metadata_get (collect_metadata Map.empty mlines) ''type_'' ''0''
      in py_int (if type_str = [] then ''0'' else type_str))"

text \<open>The item text of the specification's round-trip example.\<close>

definition example_item :: string where
  "example_item = ''Title'' @ [NL, NL] @ ''Body line'' @ [NL, NL] @
     ''id: 0123456789abcdef0123456789abcdef'' @ [NL] @ ''updated_time: X''"


section \<open>Clearing a note: the text computed by \<open>clear_note\<close>\<close>

text \<open>Decimal digits of a number, and \<open>%0kd\<close> formatting.\<close>

definition digit_char :: "nat \<Rightarrow> char" where
  "digit_char d = char_of (48 + d)"

fun digits :: "nat \<Rightarrow> string" where
  "digits n = (if n < 10 then [digit_char n] else digits (n div 10) @ [digit_char (n mod 10)])"

declare digits.simps [simp del]

definition zero_pad :: "nat \<Rightarrow> nat \<Rightarrow> string" where
  "zero_pad k n = replicate (k - length (digits n)) (CHR ''0'') @ digits n"

text \<open>
  The value of \<open>datetime.datetime.now(datetime.timezone.utc)\<close> is an input of the
  model. \<open>strftime('%Y-%m-%dT%H:%M:%S.000Z')\<close> formats it; the year of the clock has
  four digits.
\<close>

record utc_time =
  year :: nat
  month :: nat
  day :: nat
  hour :: nat
  minute :: nat
  second :: nat

definition valid_utc_time :: "utc_time \<Rightarrow> bool" where
  "valid_utc_time t \<longleftrightarrow>
     1000 \<le> year t \<and> year t \<le> 9999 \<and> 1 \<le> month t \<and> month t \<le> 12 \<and>
     1 \<le> day t \<and> day t \<le> 31 \<and> hour t \<le> 23 \<and> minute t \<le> 59 \<and> second t \<le> 59"

definition strftime_stamp :: "utc_time \<Rightarrow> string" where
  "strftime_stamp t =
     zero_pad 4 (year t) @ ''-'' @ zero_pad 2 (month t) @ ''-'' @ zero_pad 2 (day t) @ ''T'' @
     zero_pad 2 (hour t) @ '':'' @ zero_pad 2 (minute t) @ '':'' @ zero_pad 2 (second t) @
     ''.000Z''"

text \<open>The form \<open>YYYY-MM-DDTHH:MM:SS.000Z\<close>.\<close>

definition stamp_form :: "string \<Rightarrow> bool" where
  "stamp_form s \<longleftrightarrow>
     length s = 24 \<and>
     list_all is_digit (take 4 s) \<and> s ! 4 = CHR ''-'' \<and>
     list_all is_digit (take 2 (drop 5 s)) \<and> s ! 7 = CHR ''-'' \<and>
     list_all is_digit (take 2 (drop 8 s)) \<and> s ! 10 = CHR ''T'' \<and>
     list_all is_digit (take 2 (drop 11 s)) \<and> s ! 13 = CHR '':'' \<and>
     list_all is_digit (take 2 (drop 14 s)) \<and> s ! 16 = CHR '':'' \<and>
     list_all is_digit (take 2 (drop 17 s)) \<and> drop 19 s = ''.000Z''"

definition meta_boundary_at :: "string \<Rightarrow> bool" where
  \<comment> \<open>the pattern \<open>\n\nid: [a-f0-9]{32}\<close> matches at the start of the string\<close>
  "meta_boundary_at s \<longleftrightarrow>
     take 6 s = [NL, NL] @ ''id: '' \<and> length (take 32 (drop 6 s)) = 32 \<and>
     list_all is_hex (take 32 (drop 6 s))"

text \<open>\<open>re.search(r'\n\nid: [a-f0-9]{32}', text)\<close>: the start of the leftmost match.\<close>

fun re_search_meta :: "string \<Rightarrow> nat option" where
  "re_search_meta [] = None"
| "re_search_meta (c # cs) =
     (if meta_boundary_at (c # cs) then Some 0 else map_option Suc (re_search_meta cs))"

text \<open>
  \<open>re.sub(r'(?<=\n<key>: ).*', repl, s)\<close> for a key without a line feed: wherever the
  text read so far ends with a line feed, the key, a colon and a space, the rest of the
  line (\<open>.\<close> matches every character but the line feed) is replaced by \<open>repl\<close>, and
  the scan goes on from the end of that line.
\<close>

function re_sub_line_value :: "string \<Rightarrow> string \<Rightarrow> string \<Rightarrow> string" where
  "re_sub_line_value key repl s =
     (if py_startswith s (NL # key @ '': '')
      then NL # key @ '': '' @ repl @
             re_sub_line_value key repl
               (dropWhile (\<lambda>c. c \<noteq> NL) (drop (length (NL # key @ '': '')) s))
      else (case s of
              [] \<Rightarrow> []
            | c # cs \<Rightarrow> c # re_sub_line_value key repl cs))"
  by pat_completeness auto
termination
proof (relation "measure (\<lambda>(key, repl, s). length s)")
  show "wf (measure (\<lambda>(key, repl, s). length s))" by simp
next
  fix key repl :: string and s :: string
  assume "py_startswith s (NL # key @ '': '')"
  then have "length (NL # key @ '': '') \<le> length s"
    unfolding py_startswith_def by (metis length_take min.cobounded1)
  moreover have "length (dropWhile (\<lambda>c. c \<noteq> NL) (drop (length (NL # key @ '': '')) s))
      \<le> length (drop (length (NL # key @ '': '')) s)"
    by (rule length_dropWhile_le)
  ultimately show "((key, repl, dropWhile (\<lambda>c. c \<noteq> NL) (drop (length (NL # key @ '': '')) s)),
      (key, repl, s)) \<in> measure (\<lambda>(key, repl, s). length s)"
    by simp
next
  fix key repl :: string and s :: string and c :: char and cs :: string
  assume "s = c # cs"
  then show "((key, repl, cs), (key, repl, s)) \<in> measure (\<lambda>(key, repl, s). length s)"
    by simp
qed

declare re_sub_line_value.simps [simp del]

text \<open>
  The text that \<open>clear_note\<close> sends back, from the text it fetched and the formatted
  time. \<open>text.index('\n\n')\<close> raises \<open>ValueError\<close> when there is no blank-line
  pair, and so does the function itself when the metadata boundary is not found.
\<close>

definition clear_text :: "string \<Rightarrow> string \<Rightarrow> py_exn + string" where
  "clear_text now text =
     (case py_find [NL, NL] text of
        None \<Rightarrow> Inl ValueError
      | Some i \<Rightarrow>
          let title_end = i + 2 in
          (case re_search_meta text of
             None \<Rightarrow> Inl ValueError
           | Some meta_start \<Rightarrow>
               let cleared = take title_end text @ drop meta_start text;
                   cleared = re_sub_line_value ''updated_time'' now cleared;
                   cleared = re_sub_line_value ''user_updated_time'' now cleared
               in Inr cleared))"

text \<open>
  What the substitutions do to one line, in the words of the specification: the value
  of the line's key is replaced when the line starts with the key.
\<close>

definition stamp_line :: "string \<Rightarrow> string \<Rightarrow> string \<Rightarrow> string" where
  "stamp_line key now l =
     (if py_startswith l (key @ '': '') then key @ '': '' @ now else l)"

definition example_note :: string where
  "example_note = ''Title'' @ [NL, NL] @ ''Body'' @ [NL, NL] @
     ''id: 0123456789abcdef0123456789abcdef'' @ [NL] @ ''updated_time: old'' @ [NL] @
     ''user_updated_time: old''"

definition example_time :: utc_time where
  "example_time = \<lparr>year = 2024, month = 1, day = 2, hour = 3, minute = 4, second = 5\<rparr>"

text \<open>A rest of a text that is empty or begins with a line feed.\<close>

definition at_line_end :: "string \<Rightarrow> bool" where
  "at_line_end r \<longleftrightarrow> r = [] \<or> (\<exists>r'. r = NL # r')"

text \<open>The substitution on the lines of a text: the first line is never changed.\<close>

definition stamp_lines :: "string \<Rightarrow> string \<Rightarrow> string list \<Rightarrow> string list" where
  "stamp_lines key now ls = (case ls of [] \<Rightarrow> [] | l # ls' \<Rightarrow> l # map (stamp_line key now) ls')"


section \<open>The remote service and the local API as inputs\<close>

text \<open>
  Every request of the orchestrator is answered by the \<open>world\<close>: a record of functions
  from the arguments the source passes to the outcome of the call, an exception or a
  value. Decoding the response is part of the outcome. A connection is the base URL,
  the session token and the host header. The content of an item is asked for at three
  places, and the remote item may change between them, so the place is an argument.
\<close>

type_synonym conn = "string \<times> string \<times> string"

datatype site = Resolve | Fetch | Clear

record world =
  joplin_config :: "py_exn + (string \<times> string) list option"
  session_token :: "string \<Rightarrow> string \<Rightarrow> string \<Rightarrow> string \<Rightarrow> py_exn + string"
  list_all_items :: "conn \<Rightarrow> py_exn + string list"
  get_content :: "site \<Rightarrow> conn \<Rightarrow> string \<Rightarrow> py_exn + string"
  put_content :: "conn \<Rightarrow> string \<Rightarrow> string \<Rightarrow> py_exn + unit"
  post_task :: "string \<Rightarrow> nat \<Rightarrow> entry \<Rightarrow> py_exn + nat"
  utc_now :: utc_time

datatype message =
  NoConfig | ConfigIncomplete | AuthFailed py_exn | ResolveFailed py_exn
  | NoteNotFound string | FetchFailed py_exn | NoTasksFound | PostFailed py_exn
  | Ingested nat

datatype event =
  Print message
  | AuthRequest
  | ListItems
  | GetContent site string
  | PutContent string string
  | PostTask entry

section \<open>Note resolution: \<open>_find_note_item\<close>\<close>

definition py_endswith :: "string \<Rightarrow> string \<Rightarrow> bool" where
  "py_endswith s suf \<longleftrightarrow> length suf \<le> length s \<and> drop (length s - length suf) s = suf"

text \<open>
  The state of the \<open>for item in items\<close> loop: the folder id, the candidate notes and
  the requests made so far.
\<close>

record scan_state =
  folder_id :: "string option"
  candidate_notes :: "(string \<times> parsed_item) list"
  scan_events :: "event list"

definition scan_item ::
  "world \<Rightarrow> conn \<Rightarrow> string \<Rightarrow> string \<Rightarrow> scan_state \<Rightarrow> string \<Rightarrow> scan_state" where
  "scan_item w c notebook_name note_title st name =
     (if \<not> py_endswith name ''.md'' then st
      else
        let st = st\<lparr>scan_events := scan_events st @ [GetContent Resolve name]\<rparr> in
        (case get_content w Resolve c name of
           Inl e \<Rightarrow> st
         | Inr raw \<Rightarrow>
             (case parse_joplin_item raw of
                Inl e \<Rightarrow> st
              | Inr parsed \<Rightarrow>
                  let st = (if item_type parsed = 2 \<and>
                               py_startswith (item_title parsed) notebook_name
                            then st\<lparr>folder_id := Some (item_id parsed)\<rparr> else st)
                  in (if item_type parsed = 1 \<and> item_title parsed = note_title
                      then st\<lparr>candidate_notes := candidate_notes st @ [(name, parsed)]\<rparr>
                      else st))))"

definition scan_items ::
  "world \<Rightarrow> conn \<Rightarrow> string \<Rightarrow> string \<Rightarrow> string list \<Rightarrow> scan_state" where
  "scan_items w c notebook_name note_title names =
     foldl (scan_item w c notebook_name note_title)
       \<lparr>folder_id = None, candidate_notes = [], scan_events = []\<rparr> names"

text \<open>The key of \<open>matches.sort\<close>: \<open>(x[1]['body'] == '', x[0])\<close>.\<close>

definition match_key :: "string \<times> parsed_item \<Rightarrow> bool \<times> string" where
  "match_key x = (item_body (snd x) = [], fst x)"

text \<open>
  The list \<open>matches\<close> before it is sorted. \<open>p['parent_id'] == folder_id\<close> is false when
  no folder was found.
\<close>

definition note_matches :: "string \<Rightarrow> scan_state \<Rightarrow> (string \<times> parsed_item) list" where
  "note_matches notebook_name st =
     filter (\<lambda>(n, p). notebook_name = [] \<or> folder_id st = Some (item_parent_id p))
       (candidate_notes st)"

text \<open>\<open>not folder_id\<close>: no folder was found, or its id is the empty string.\<close>

definition folder_missing :: "scan_state \<Rightarrow> bool" where
  "folder_missing st \<longleftrightarrow> folder_id st = None \<or> folder_id st = Some []"

definition find_note_item ::
  "world \<Rightarrow> conn \<Rightarrow> string \<Rightarrow> string \<Rightarrow> event list \<times> (py_exn + string option)" where
  "find_note_item w c notebook_name note_title =
     (case list_all_items w c of
        Inl e \<Rightarrow> ([ListItems], Inl e)
      | Inr names \<Rightarrow>
          let st = scan_items w c notebook_name note_title names;
              evs = ListItems # scan_events st
          in if notebook_name \<noteq> [] \<and> folder_missing st then (evs, Inr None)
             else
               (case sort_key match_key (note_matches notebook_name st) of
                  [] \<Rightarrow> (evs, Inr None)
                | (item_name, parsed) # _ \<Rightarrow> (evs, Inr (Some item_name))))"

text \<open>\<open>note_path.rsplit("/", 1)\<close>: the path is cut at its last slash, if it has one.\<close>

definition py_rsplit1 :: "char \<Rightarrow> string \<Rightarrow> string list" where
  "py_rsplit1 sep s =
     (if sep \<in> set s
      then [rev (drop 1 (dropWhile (\<lambda>c. c \<noteq> sep) (rev s))), rev (takeWhile (\<lambda>c. c \<noteq> sep) (rev s))]
      else [s])"

definition resolve_note_item ::
  "world \<Rightarrow> conn \<Rightarrow> string \<Rightarrow> event list \<times> (py_exn + string option)" where
  "resolve_note_item w c note_path =
     (case py_rsplit1 (CHR ''/'') note_path of
        [notebook_name, note_title] \<Rightarrow> find_note_item w c notebook_name note_title
      | parts \<Rightarrow> find_note_item w c [] (case parts of [] \<Rightarrow> [] | p # _ \<Rightarrow> p))"

section \<open>Fetching and clearing a note\<close>

definition fetch_note :: "world \<Rightarrow> conn \<Rightarrow> string \<Rightarrow> event list \<times> (py_exn + string)" where
  "fetch_note w c item_name =
     ([GetContent Fetch item_name],
      (case get_content w Fetch c item_name of
         Inl e \<Rightarrow> Inl e
       | Inr raw \<Rightarrow>
           (case parse_joplin_item raw of
              Inl e \<Rightarrow> Inl e
            | Inr parsed \<Rightarrow> Inr (item_body parsed))))"

definition clear_note :: "world \<Rightarrow> conn \<Rightarrow> string \<Rightarrow> event list \<times> (py_exn + unit)" where
  "clear_note w c item_name =
     (case get_content w Clear c item_name of
        Inl e \<Rightarrow> ([GetContent Clear item_name], Inl e)
      | Inr raw \<Rightarrow>
          (case clear_text (strftime_stamp (utc_now w)) raw of
             Inl e \<Rightarrow> ([GetContent Clear item_name], Inl e)
           | Inr cleared \<Rightarrow>
               ([GetContent Clear item_name, PutContent item_name cleared],
                put_content w c item_name cleared)))"

section \<open>The orchestrator: \<open>load_from_joplin\<close>\<close>

definition config_get :: "(string \<times> string) list \<Rightarrow> string \<Rightarrow> string \<Rightarrow> string" where
  \<comment> \<open>\<open>config.get(key, default)\<close>\<close>
  "config_get config k d = (case map_of config k of None \<Rightarrow> d | Some v \<Rightarrow> v)"

text \<open>
  The loop that posts the tasks: the count \<open>cnt\<close> of responses with status 201, and the
  events. An exception of a request is printed and the loop goes on.
\<close>

fun post_tasks ::
  "world \<Rightarrow> string \<Rightarrow> nat \<Rightarrow> nat \<Rightarrow> entry list \<Rightarrow> event list \<times> nat" where
  "post_tasks w api_base i cnt [] = ([], cnt)"
| "post_tasks w api_base i cnt (task # tasks) =
     (case post_task w api_base i task of
        Inl exc \<Rightarrow>
          (let (evs, n) = post_tasks w api_base (Suc i) cnt tasks
           in (PostTask task # Print (PostFailed exc) # evs, n))
      | Inr status \<Rightarrow>
          (let (evs, n) = post_tasks w api_base (Suc i)
                            (if status = 201 then cnt + 1 else cnt) tasks
           in (PostTask task # evs, n)))"

definition load_from_joplin :: "world \<Rightarrow> string \<Rightarrow> event list \<times> (py_exn + nat)" where
  "load_from_joplin w api_base =
     (case joplin_config w of
        Inl e \<Rightarrow> ([], Inl e)
      | Inr None \<Rightarrow> ([Print NoConfig], Inr 0)
      | Inr (Some config) \<Rightarrow>
          if config = [] then ([Print NoConfig], Inr 0)
          else
            let base_url = config_get config ''url'' [];
                email = config_get config ''email'' [];
                password = config_get config ''password'' [];
                note_path = config_get config ''note_path'' ''ingest/todo.txt'';
                server_host = config_get config ''server_host'' []
            in
            if base_url = [] \<or> email = [] \<or> password = []
            then ([Print ConfigIncomplete], Inr 0)
            else
              (case session_token w base_url email password server_host of
                 Inl exc \<Rightarrow>
                   if is_transport_or_decode exc
                   then ([AuthRequest, Print (AuthFailed exc)], Inr 0)
                   else ([AuthRequest], Inl exc)
               | Inr token \<Rightarrow>
                   let c = (base_url, token, server_host);
                       (evs1, r1) = resolve_note_item w c note_path;
                       evs1 = AuthRequest # evs1
                   in
                   (case r1 of
                      Inl exc \<Rightarrow>
                        if is_OSError exc then (evs1 @ [Print (ResolveFailed exc)], Inr 0)
                        else (evs1, Inl exc)
                    | Inr None \<Rightarrow> (evs1 @ [Print (NoteNotFound note_path)], Inr 0)
                    | Inr (Some item_name) \<Rightarrow>
                        if item_name = [] then (evs1 @ [Print (NoteNotFound note_path)], Inr 0)
                        else
                          let (evs2, r2) = fetch_note w c item_name;
                              evs2 = evs1 @ evs2
                          in
                          (case r2 of
                             Inl exc \<Rightarrow>
                               if is_transport_or_decode exc
                               then (evs2 @ [Print (FetchFailed exc)], Inr 0)
                               else (evs2, Inl exc)
                           | Inr text \<Rightarrow>
                               let tasks = parse_tasks text in
                               if tasks = [] then (evs2 @ [Print NoTasksFound], Inr 0)
                               else
                                 let (evs3, cnt) = post_tasks w api_base 0 0 tasks;
                                     (evs4, r4) = clear_note w c item_name;
                                     evs = evs2 @ evs3 @ evs4
                                 in
                                 (case r4 of
                                    Inl exc \<Rightarrow>
                                      if is_OSError exc
                                      then (evs @ [Print (Ingested cnt)], Inr cnt)
                                      else (evs, Inl exc)
                                  | Inr _ \<Rightarrow>
                                      (evs @ [Print (Ingested cnt)], Inr cnt))))))"

section \<open>Candidates of the note resolution, as the specification words them\<close>

text \<open>
  An item is a candidate when its name ends in \<open>.md\<close>, its content could be fetched and
  parsed, its type is 1 and its title is exactly the requested title.
\<close>

definition is_candidate :: "world \<Rightarrow> conn \<Rightarrow> string \<Rightarrow> string \<Rightarrow> parsed_item \<Rightarrow> bool" where
  "is_candidate w c note_title name p \<longleftrightarrow>
     py_endswith name ''.md'' \<and>
     (case get_content w Resolve c name of
        Inl e \<Rightarrow> False
      | Inr raw \<Rightarrow> parse_joplin_item raw = Inr p) \<and>
     item_type p = 1 \<and> item_title p = note_title"

text \<open>The candidates that one iteration of the loop appends.\<close>

definition new_candidates :: "world \<Rightarrow> conn \<Rightarrow> string \<Rightarrow> string \<Rightarrow> (string \<times> parsed_item) list" where
  "new_candidates w c t name =
     (if py_endswith name ''.md'' then
        (case get_content w Resolve c name of
           Inl e \<Rightarrow> []
         | Inr raw \<Rightarrow>
             (case parse_joplin_item raw of
                Inl e \<Rightarrow> []
              | Inr p \<Rightarrow> if item_type p = 1 \<and> item_title p = t then [(name, p)] else []))
      else [])"


section \<open>An example of the remote service\<close>

definition folder_text :: string where
  "folder_text = ''ingest'' @ [NL, NL] @ ''id: ffffffffffffffffffffffffffffffff'' @ [NL] @
     ''type_: 2''"

definition note_a_text :: string where
  \<comment> \<open>a note with an empty body\<close>
  "note_a_text = ''todo.txt'' @ [NL, NL, NL, NL] @ ''id: aaaaaaaaaaaaaaaaaaaaaaaaaaaaaaaa'' @
     [NL] @ ''parent_id: ffffffffffffffffffffffffffffffff'' @ [NL] @ ''type_: 1''"

definition note_b_text :: string where
  \<comment> \<open>a note with two task lines\<close>
  "note_b_text = ''todo.txt'' @ [NL, NL] @ ''2024-01-01;Buy milk'' @ [NL] @
     ''2024-01-02;Call bank;home'' @ [NL, NL] @ ''id: bbbbbbbbbbbbbbbbbbbbbbbbbbbbbbbb'' @
     [NL] @ ''parent_id: ffffffffffffffffffffffffffffffff'' @ [NL] @
     ''updated_time: old'' @ [NL] @ ''type_: 1''"

definition note_c_text :: string where
  \<comment> \<open>a note whose id line does not follow an empty line\<close>
  "note_c_text = ''todo.txt'' @ [NL, NL] @ ''2024-01-01;Buy milk'' @ [NL] @
     ''id: cccccccccccccccccccccccccccccccc'' @
     [NL] @ ''parent_id: ffffffffffffffffffffffffffffffff'' @ [NL] @ ''type_: 1''"

definition example_content :: "string \<Rightarrow> py_exn + string" where
  "example_content name =
     (if name = ''f.md'' then Inr folder_text
      else if name = ''a.md'' then Inr note_a_text
      else if name = ''b.md'' then Inr note_b_text
      else if name = ''c.md'' then Inr note_c_text
      else Inl URLError)"

definition example_world :: world where
  "example_world =
     \<lparr>joplin_config = Inr (Some [(''url'', ''http://joplin''), (''email'', ''me@example.org''),
                                  (''password'', ''secret'')]),
      session_token = (\<lambda>base_url email password host. Inr ''token''),
      list_all_items = (\<lambda>c. Inr [''a.md'', ''b.md'', ''f.md'', ''x.txt'']),
      get_content = (\<lambda>s c name. example_content name),
      put_content = (\<lambda>c name data. Inr ()),
      post_task = (\<lambda>api_base i task. Inr 201),
      utc_now = example_time\<rparr>"

definition example_conn :: conn where
  "example_conn = (''http://joplin'', ''token'', [])"

text \<open>The events that post a task to the local API or belong to \<open>clear_note\<close>.\<close>

definition is_post_or_clear :: "event \<Rightarrow> bool" where
  "is_post_or_clear ev =
     (case ev of
        PostTask t \<Rightarrow> True
      | GetContent s n \<Rightarrow> s = Clear
      | PutContent n d \<Rightarrow> True
      | _ \<Rightarrow> False)"

text \<open>
  Variants of the example: the only note has no empty line before its id line; the only
  note has an empty body; the request that writes the cleared note fails.
\<close>

definition example_world_c :: world where
  "example_world_c = example_world\<lparr>list_all_items := (\<lambda>c. Inr [''c.md'', ''f.md''])\<rparr>"

definition example_world_a :: world where
  "example_world_a = example_world\<lparr>list_all_items := (\<lambda>c. Inr [''a.md'', ''f.md''])\<rparr>"

definition example_world_put_fails :: world where
  "example_world_put_fails = example_world\<lparr>put_content := (\<lambda>c name data. Inl URLError)\<rparr>"

definition example_body :: string where
  "example_body = ''2024-01-01;Buy milk'' @ [NL] @ ''2024-01-02;Call bank;home''"


section \<open>The tasks table and the HTTP API\<close>

text \<open>
  A row of the table \<open>tasks\<close>: the three fields of \<open>TaskIn\<close> and the id. The table is
  the list of its rows; the primary key makes the ids distinct. Text is compared as
  SQLite's default collation does, byte by byte, which is the lexicographic order of
  the code points. \<open>ORDER BY date\<close> is modelled by a stable sort (the order among equal
  dates is not fixed by SQL).
\<close>

record task_row = entry +
  task_id :: int

type_synonym tasks_table = "task_row list"




definition select_by_id :: "tasks_table \<Rightarrow> int \<Rightarrow> task_row option" where
  \<comment> \<open>\<open>SELECT * FROM tasks WHERE id = ?\<close>, \<open>fetchone()\<close>\<close>
  "select_by_id t tid = find (\<lambda>r. task_id r = tid) t"



subsection \<open>Calendar dates\<close>















text \<open>The messages printed, in order.\<close>

fun messages :: "event list \<Rightarrow> message list" where
  "messages [] = []"
| "messages (Print m # evs) = m # messages evs"
| "messages (ev # evs) = messages evs"

definition is_post_failed :: "message \<Rightarrow> bool" where
  "is_post_failed m = (case m of PostFailed exc \<Rightarrow> True | _ \<Rightarrow> False)"



section \<open>Properties of the task parser\<close>

lemma parse_task_line_spec:
  "parse_task_line l = (if spec_is_task_line l then Some (spec_entry l) else None)"
  by (auto simp: parse_task_line_def spec_is_task_line_def spec_entry_def spec_fields_def
      Let_def)

lemma parse_tasks_loop_spec:
  "parse_tasks_loop acc ls = acc @ map spec_entry (filter spec_is_task_line ls)"
  by (induction ls arbitrary: acc) (simp_all add: parse_task_line_spec)

lemma parse_tasks_two_entries:
  "parse_tasks (''2024-01-01;Buy milk'' @ [NL] @ ''2024-01-02;Call bank;home'') =
     [\<lparr>date = ''2024-01-01'', headline = ''Buy milk'', context_str = ''''\<rparr>,
      \<lparr>date = ''2024-01-02'', headline = ''Call bank'', context_str = ''home''\<rparr>]"
  by code_simp

lemma parse_tasks_no_semicolon: "parse_tasks ''bad line no semicolon'' = []"
  by code_simp

lemma parse_tasks_empty_date: "parse_tasks '';headline'' = []"
  by code_simp

text \<open>
  C1. For every input text, \<open>parse_tasks\<close> returns exactly the entries the
  specification describes: one entry, in order, for each line that after trimming is
  non-empty, is not a comment, and has at least two trimmed fields of which the first
  two are non-empty; the context is the trimmed third field or the empty string.
  The three examples of the specification evaluate as it says.
\<close>

theorem parse_tasks_refines_spec:
  "parse_tasks text = spec_parse_tasks text \<and>
   parse_tasks (''2024-01-01;Buy milk'' @ [NL] @ ''2024-01-02;Call bank;home'') =
     [\<lparr>date = ''2024-01-01'', headline = ''Buy milk'', context_str = ''''\<rparr>,
      \<lparr>date = ''2024-01-02'', headline = ''Call bank'', context_str = ''home''\<rparr>] \<and>
   parse_tasks ''bad line no semicolon'' = [] \<and>
   parse_tasks '';headline'' = []"
  using parse_tasks_two_entries parse_tasks_no_semicolon parse_tasks_empty_date
  by (simp add: parse_tasks_def spec_parse_tasks_def parse_tasks_loop_spec)

section \<open>Properties of the item format\<close>


lemma py_split_no_sep: "c \<notin> set x \<Longrightarrow> py_split c x = [x]"
  by (induction x) auto

lemma py_split_append_sep:
  "c \<notin> set x \<Longrightarrow> py_split c (x @ c # rest) = x # py_split c rest"
  by (induction x) auto

lemma py_split_join:
  "xs \<noteq> [] \<Longrightarrow> \<forall>x\<in>set xs. c \<notin> set x \<Longrightarrow> py_split c (py_join [c] xs) = xs"
proof (induction "[c]" xs rule: py_join.induct)
  case 1
  then show ?case by simp
next
  case (2 x)
  then show ?case by (simp add: py_split_no_sep)
next
  case (3 x y ys)
  then show ?case by (simp add: py_split_append_sep)
qed

lemma py_join_last:
  "xs \<noteq> [] \<Longrightarrow> \<exists>pre. py_join sep xs = pre @ last xs"
  by (induction sep xs rule: py_join.induct) auto

lemma py_rstrip_nl_snoc:
  assumes "s \<noteq> []" "last s \<noteq> NL"
  shows "py_rstrip_nl (s @ [NL]) = s"
proof -
  from assms obtain t c where s: "s = t @ [c]" "c \<noteq> NL"
    by (metis append_butlast_last_id)
  then show ?thesis by (simp add: py_rstrip_nl_def)
qed

lemma py_rstrip_nl_join:
  assumes "xs \<noteq> []" "last xs \<noteq> []" "NL \<notin> set (last xs)"
  shows "py_rstrip_nl (py_join [NL] xs @ [NL]) = py_join [NL] xs"
proof -
  obtain pre where p: "py_join [NL] xs = pre @ last xs"
    using py_join_last[OF assms(1)] by blast
  have "last (last xs) \<noteq> NL" using assms(2,3) last_in_set by metis
  then have "last (py_join [NL] xs) \<noteq> NL" "py_join [NL] xs \<noteq> []"
    using p assms(2) by auto
  then show ?thesis by (simp add: py_rstrip_nl_snoc)
qed

lemma py_join_append:
  "xs \<noteq> [] \<Longrightarrow> ys \<noteq> [] \<Longrightarrow> py_join sep (xs @ ys) = py_join sep xs @ sep @ py_join sep ys"
proof (induction sep xs rule: py_join.induct)
  case (2 sep x)
  then show ?case by (cases ys) auto
qed auto

lemma find_metadata_start_first:
  assumes "j < length lines" "is_id_line (lines ! j)" "i \<le> j"
    "\<forall>k. i \<le> k \<and> k < j \<longrightarrow> \<not> is_id_line (lines ! k)"
  shows "find_metadata_start lines i = j"
  using assms
proof (induction "j - i" arbitrary: i)
  case 0
  then have "i = j" by simp
  with 0 show ?case by (subst find_metadata_start.simps) simp
next
  case (Suc n)
  then have lt: "i < j" by simp
  then have "\<not> is_id_line (lines ! i)" using Suc.prems by simp
  moreover have "find_metadata_start lines (Suc i) = j"
    using Suc lt by (intro Suc.hyps) auto
  ultimately show ?case using lt Suc.prems(1)
    by (subst find_metadata_start.simps) simp
qed

lemma find_body_start_stop:
  "\<not> (b < ms \<and> py_strip (lines ! b) = []) \<Longrightarrow> find_body_start lines ms b = b"
  by (subst find_body_start.simps) auto

lemma find_body_start_step:
  "b < ms \<Longrightarrow> py_strip (lines ! b) = [] \<Longrightarrow>
   find_body_start lines ms b = find_body_start lines ms (Suc b)"
  by (subst find_body_start.simps) simp

lemma find_body_end_stop:
  "\<not> (e > b \<and> py_strip (lines ! (e - 1)) = []) \<Longrightarrow> find_body_end lines b e = e"
  by (subst find_body_end.simps) auto

lemma find_body_end_step:
  "e > b \<Longrightarrow> py_strip (lines ! (e - 1)) = [] \<Longrightarrow>
   find_body_end lines b e = find_body_end lines b (e - 1)"
  by (subst find_body_end.simps) simp


lemma py_join_nonempty: "xs \<noteq> [] \<Longrightarrow> hd xs \<noteq> [] \<Longrightarrow> py_join sep xs \<noteq> []"
  by (induction sep xs rule: py_join.induct) auto

lemma py_join_nest:
  assumes "ys \<noteq> []"
  shows "py_join sep (xs @ [py_join sep ys] @ zs) = py_join sep (xs @ ys @ zs)"
proof (cases "xs = []")
  case True
  show ?thesis
  proof (cases "zs = []")
    case True
    with \<open>xs = []\<close> show ?thesis by simp
  next
    case False
    with \<open>xs = []\<close> assms show ?thesis
      using py_join_append[of "[py_join sep ys]" zs sep] by (simp add: py_join_append)
  qed
next
  case False
  show ?thesis
  proof (cases "zs = []")
    case True
    with False assms show ?thesis by (simp add: py_join_append)
  next
    case zs: False
    have "py_join sep (xs @ ([py_join sep ys] @ zs)) =
          py_join sep xs @ sep @ py_join sep ([py_join sep ys] @ zs)"
      using False by (intro py_join_append) auto
    also have "py_join sep ([py_join sep ys] @ zs) = py_join sep ys @ sep @ py_join sep zs"
      using zs by (intro py_join_append[THEN trans]) auto
    also have "py_join sep ys @ sep @ py_join sep zs = py_join sep (ys @ zs)"
      using zs assms by (simp add: py_join_append)
    also have "py_join sep xs @ sep @ py_join sep (ys @ zs) = py_join sep (xs @ (ys @ zs))"
      using False assms by (intro py_join_append[symmetric]) auto
    finally show ?thesis by simp
  qed
qed

lemma item_lines_parse:
  assumes title: "NL \<notin> set title"
    and bs: "bs \<noteq> []" "\<forall>b\<in>set bs. NL \<notin> set b \<and> \<not> is_id_line b"
    and first: "py_strip (hd bs) \<noteq> []" and lst: "py_strip (last bs) \<noteq> []"
    and idl: "is_id_line idl" "NL \<notin> set idl"
    and ms: "\<forall>m\<in>set ms. NL \<notin> set m" "last (idl # ms) \<noteq> []"
    and L: "L = [title, []] @ bs @ [[]] @ (idl # ms)"
  shows "py_split NL (py_rstrip_nl (py_join [NL] L @ [NL])) = L"
    and "find_metadata_start L 1 = length bs + 3"
    and "find_body_start L (length bs + 3) 1 = 2"
    and "find_body_end L 2 (length bs + 3) = length bs + 2"
    and "py_slice L 2 (length bs + 2) = bs"
    and "drop (length bs + 3) L = idl # ms"
proof -
  have Lne: "L \<noteq> []" using L by simp
  have lastL: "last L = last (idl # ms)" using L by simp
  have noNL: "\<forall>x\<in>set L. NL \<notin> set x"
    using L title bs(2) idl(2) ms(1) by auto
  have "NL \<notin> set (last L)" using noNL Lne last_in_set by blast
  then have "py_rstrip_nl (py_join [NL] L @ [NL]) = py_join [NL] L"
    using py_rstrip_nl_join[OF Lne] lastL ms(2) by simp
  then show "py_split NL (py_rstrip_nl (py_join [NL] L @ [NL])) = L"
    using py_split_join[OF Lne noNL] by simp
  have nth_bs: "\<And>k. 2 \<le> k \<Longrightarrow> k < length bs + 2 \<Longrightarrow> L ! k = bs ! (k - 2)"
    using L by (auto simp: nth_append nth_Cons split: nat.splits)
  have L1: "L ! 1 = []" using L by simp
  have Lb: "L ! (length bs + 2) = []" using L by (simp add: nth_append)
  have Li: "L ! (length bs + 3) = idl" using L by (simp add: nth_append)
  have not_id_empty: "\<not> is_id_line []" by (simp add: is_id_line_def)
  have "\<forall>k. 1 \<le> k \<and> k < length bs + 3 \<longrightarrow> \<not> is_id_line (L ! k)"
  proof (intro allI impI)
    fix k assume k: "1 \<le> k \<and> k < length bs + 3"
    consider "k = 1" | "2 \<le> k" "k < length bs + 2" | "k = length bs + 2"
      using k by linarith
    then show "\<not> is_id_line (L ! k)"
    proof cases
      case 1 then show ?thesis using L1 not_id_empty by simp
    next
      case 2
      then have "L ! k = bs ! (k - 2)" "k - 2 < length bs" using nth_bs by auto
      then show ?thesis using bs(2) nth_mem by metis
    next
      case 3 then show ?thesis using Lb not_id_empty by simp
    qed
  qed
  moreover have "length bs + 3 < length L" using L by simp
  ultimately show "find_metadata_start L 1 = length bs + 3"
    using Li idl(1) by (intro find_metadata_start_first) auto
  have L2: "L ! 2 = hd bs" using nth_bs[of 2] bs(1) by (simp add: hd_conv_nth)
  have strip_empty: "py_strip [] = []" by (simp add: py_strip_def py_lstrip_def py_rstrip_def)
  have s1: "find_body_start L (length bs + 3) 1 = find_body_start L (length bs + 3) (Suc 1)"
    using L1 strip_empty by (intro find_body_start_step) auto
  have s2: "find_body_start L (length bs + 3) 2 = 2"
    using L2 first by (intro find_body_start_stop) simp
  show "find_body_start L (length bs + 3) 1 = 2"
    using s1 s2 by (simp add: numeral_2_eq_2)
  have Llast: "L ! (length bs + 1) = last bs"
  proof -
    have "1 \<le> length bs" using bs(1) by (cases bs) auto
    then have "2 \<le> length bs + 1" "length bs + 1 < length bs + 2" by auto
    then have "L ! (length bs + 1) = bs ! (length bs + 1 - 2)"
      by (rule nth_bs)
    then show ?thesis using bs(1) by (simp add: last_conv_nth)
  qed
  have e1: "find_body_end L 2 (length bs + 3) = find_body_end L 2 (length bs + 3 - 1)"
    using Lb strip_empty by (intro find_body_end_step) auto
  have e2: "find_body_end L 2 (length bs + 2) = length bs + 2"
    using Llast lst by (intro find_body_end_stop) simp
  have "length bs + 3 - 1 = length bs + 2" by simp
  then show "find_body_end L 2 (length bs + 3) = length bs + 2"
    using e1 e2 by (simp only:)
  show "py_slice L 2 (length bs + 2) = bs" using L by (simp add: py_slice_def)
  have len: "length ([title, []] @ bs @ [[]]) = length bs + 3" by simp
  have "L = ([title, []] @ bs @ [[]]) @ (idl # ms)" using L by simp
  then show "drop (length bs + 3) L = idl # ms"
    using len by (metis append_eq_conv_conj)
qed

text \<open>
  C2, as amended. For an item text made of a title line, an empty line, a body whose first
  and last lines are not blank and none of whose lines is an id line, an empty line, and
  a metadata block that begins with the id line, where the text ends with exactly one
  line feed and the \<open>type_\<close> entry (if any) is an integer literal that \<open>int\<close>
  accepts (so of at most 4300 digits): parsing and then
  rebuilding from the parsed title, body and metadata lines gives the text back,
  character for character.
\<close>

theorem parse_rebuild_roundtrip:
  assumes title: "NL \<notin> set title"
    and bs: "bs \<noteq> []" "\<forall>b\<in>set bs. NL \<notin> set b \<and> \<not> is_id_line b"
    and first: "py_strip (hd bs) \<noteq> []" and lst: "py_strip (last bs) \<noteq> []"
    and idl: "is_id_line idl" "NL \<notin> set idl"
    and ms: "\<forall>m\<in>set ms. NL \<notin> set m" "last (idl # ms) \<noteq> []"
    and ty: "item_type_of (idl # ms) = Inr t"
    and tx: "text = py_join [NL] ([title, []] @ bs @ [[]] @ (idl # ms)) @ [NL]"
  shows "\<exists>p. parse_joplin_item text = Inr p \<and>
           item_title p = title \<and> item_body p = py_join [NL] bs \<and>
           item_metadata_lines p = idl # ms \<and>
           rebuild_joplin_item (item_title p) (item_body p) (item_metadata_lines p) = text"
proof -
  define L where "L = [title, []] @ bs @ [[]] @ (idl # ms)"
  note facts = item_lines_parse[OF title bs first lst idl ms L_def]
  have hd_ne: "hd bs \<noteq> []"
    using first by (auto simp: py_strip_def py_lstrip_def py_rstrip_def)
  have body_ne: "py_join [NL] bs \<noteq> []" using bs(1) hd_ne by (rule py_join_nonempty)
  have Lhd: "(case L of [] \<Rightarrow> [] | l # _ \<Rightarrow> l) = title" by (simp add: L_def)
  have ty': "py_int (if metadata_get (collect_metadata Map.empty (idl # ms)) ''type_'' ''0'' = []
       then ''0'' else metadata_get (collect_metadata Map.empty (idl # ms)) ''type_'' ''0'') = Inr t"
    using ty unfolding item_type_of_def Let_def .
  have parse: "parse_joplin_item text =
      Inr \<lparr>item_title = title, item_body = py_join [NL] bs, item_type = t,
           item_id = metadata_get (collect_metadata Map.empty (idl # ms)) ''id'' [],
           item_parent_id = metadata_get (collect_metadata Map.empty (idl # ms)) ''parent_id'' [],
           item_metadata_lines = idl # ms\<rparr>"
    unfolding parse_joplin_item_def tx L_def[symmetric] Let_def facts Lhd ty'
    using bs(1) by (simp del: collect_metadata.simps)
  have "py_join [NL] ([title, []] @ [py_join [NL] bs] @ ([[]] @ (idl # ms))) =
        py_join [NL] ([title, []] @ bs @ ([[]] @ (idl # ms)))"
    using bs(1) by (rule py_join_nest)
  then have "rebuild_joplin_item title (py_join [NL] bs) (idl # ms) = text"
    using body_ne by (simp add: rebuild_joplin_item_def tx)
  with parse show ?thesis by simp
qed

lemma example_rebuild:
  "parse_joplin_item example_item =
     Inr \<lparr>item_title = ''Title'', item_body = ''Body line'', item_type = 0,
          item_id = ''0123456789abcdef0123456789abcdef'', item_parent_id = [],
          item_metadata_lines = [''id: 0123456789abcdef0123456789abcdef'', ''updated_time: X'']\<rparr>"
  by code_simp

text \<open>
  On the specification's own example, which has no final line feed, the rebuilt text is
  the original followed by one line feed, so it is not the original.
\<close>

theorem parse_rebuild_not_identical:
  "\<not> (\<exists>p. parse_joplin_item example_item = Inr p \<and>
        rebuild_joplin_item (item_title p) (item_body p) (item_metadata_lines p) = example_item)"
proof -
  have "rebuild_joplin_item ''Title'' ''Body line''
          [''id: 0123456789abcdef0123456789abcdef'', ''updated_time: X''] = example_item @ [NL]"
    by (simp add: rebuild_joplin_item_def example_item_def)
  then show ?thesis using example_rebuild by auto
qed


theorem parse_rebuild_roundtrip_witness:
  "\<exists>p. parse_joplin_item (example_item @ [NL]) = Inr p \<and>
       item_title p = ''Title'' \<and> item_body p = ''Body line'' \<and>
       item_metadata_lines p =
         [''id: 0123456789abcdef0123456789abcdef'', ''updated_time: X''] \<and>
       rebuild_joplin_item (item_title p) (item_body p) (item_metadata_lines p) =
         example_item @ [NL]"
proof -
  have h1: "NL \<notin> set ''Title''" by simp
  have h2: "[''Body line''] \<noteq> []" by simp
  have h3: "\<forall>b\<in>set [''Body line'']. NL \<notin> set b \<and> \<not> is_id_line b"
    by (simp add: is_id_line_def)
  have h4: "py_strip (hd [''Body line'']) \<noteq> []" by code_simp
  have h5: "py_strip (last [''Body line'']) \<noteq> []" by code_simp
  have h6: "is_id_line ''id: 0123456789abcdef0123456789abcdef''" by code_simp
  have h7: "NL \<notin> set ''id: 0123456789abcdef0123456789abcdef''" by simp
  have h8: "\<forall>m\<in>set [''updated_time: X'']. NL \<notin> set m" by simp
  have h9: "last [''id: 0123456789abcdef0123456789abcdef'', ''updated_time: X''] \<noteq> []"
    by simp
  have h10: "item_type_of [''id: 0123456789abcdef0123456789abcdef'', ''updated_time: X'']
               = Inr 0"
    by code_simp
  have h11: "example_item @ [NL] =
      py_join [NL] ([''Title'', []] @ [''Body line''] @ [[]] @
        [''id: 0123456789abcdef0123456789abcdef'', ''updated_time: X'']) @ [NL]"
    by (simp add: example_item_def)
  show ?thesis
    using parse_rebuild_roundtrip[OF h1 h2 h3 h4 h5 h6 h7 h8 h9 h10 h11] by simp
qed

section \<open>Properties of the cleared note text\<close>

lemma py_startswith_length: "py_startswith s p \<Longrightarrow> length p \<le> length s"
  unfolding py_startswith_def by (metis length_take min.cobounded1)

lemma py_startswith_append: "py_startswith s p \<Longrightarrow> s = p @ drop (length p) s"
  unfolding py_startswith_def by (metis append_take_drop_id)

lemma py_find_Some:
  "py_find sub s = Some i \<Longrightarrow> py_startswith (drop i s) sub \<and> i \<le> length s"
proof (induction s arbitrary: i)
  case Nil
  then show ?case by (auto simp: py_startswith_def split: if_splits)
next
  case (Cons c cs)
  then show ?case by (auto split: if_splits)
qed

lemma py_find_least:
  "py_find sub s = Some i \<Longrightarrow> py_startswith (drop j s) sub \<Longrightarrow> j \<le> length s \<Longrightarrow> i \<le> j"
proof (induction s arbitrary: i j)
  case Nil
  then show ?case by (auto split: if_splits)
next
  case (Cons c cs)
  show ?case
  proof (cases "py_startswith (c # cs) sub")
    case True
    with Cons.prems show ?thesis by simp
  next
    case False
    with Cons.prems obtain i' where i': "py_find sub cs = Some i'" "i = Suc i'" by auto
    from False Cons.prems(2) obtain j' where j': "j = Suc j'" by (cases j) auto
    with Cons.prems have "py_startswith (drop j' cs) sub" "j' \<le> length cs" by auto
    with Cons.IH[OF i'(1)] have "i' \<le> j'" by blast
    with i' j' show ?thesis by simp
  qed
qed

lemma re_search_meta_Some:
  "re_search_meta s = Some m \<Longrightarrow> meta_boundary_at (drop m s) \<and> m \<le> length s"
  by (induction s arbitrary: m) (auto split: if_splits)

lemma meta_boundary_at_parts:
  assumes "meta_boundary_at s"
  shows "py_startswith s [NL, NL]" and "py_startswith (drop 2 s) ''id: ''"
proof -
  from assms have t: "take 6 s = [NL, NL] @ ''id: ''" by (simp add: meta_boundary_at_def)
  have "take 2 s = take 2 (take 6 s)" by simp
  with t show "py_startswith s [NL, NL]" by (simp add: py_startswith_def numeral_2_eq_2)
  have "take 4 (drop 2 s) = drop 2 (take 6 s)" by (simp add: drop_take)
  with t show "py_startswith (drop 2 s) ''id: ''" by (simp add: py_startswith_def eval_nat_numeral)
qed

lemma cleared_concat:
  assumes "py_find [NL, NL] text = Some i" "re_search_meta text = Some m"
  shows "i \<le> m" and "take (i + 2) text @ drop m text = take i text @ [NL, NL, NL, NL] @ drop (m + 2) text"
    and "py_startswith (drop (m + 2) text) ''id: ''"
proof -
  from re_search_meta_Some[OF assms(2)] have mb: "meta_boundary_at (drop m text)" "m \<le> length text"
    by auto
  from meta_boundary_at_parts[OF mb(1)] have sw: "py_startswith (drop m text) [NL, NL]"
    and idp: "py_startswith (drop 2 (drop m text)) ''id: ''" by auto
  show "i \<le> m" using py_find_least[OF assms(1) sw mb(2)] .
  from py_find_Some[OF assms(1)] have "py_startswith (drop i text) [NL, NL]" by simp
  then have a: "take 2 (drop i text) = [NL, NL]" by (simp add: py_startswith_def numeral_2_eq_2)
  have "take (i + 2) text = take i text @ take 2 (drop i text)" by (rule take_add)
  with a have t: "take (i + 2) text = take i text @ [NL, NL]" by simp
  from py_startswith_append[OF sw] have d: "drop m text = [NL, NL] @ drop (m + 2) text"
    by (simp add: add.commute)
  show "take (i + 2) text @ drop m text = take i text @ [NL, NL, NL, NL] @ drop (m + 2) text"
    by (subst t, subst d) simp
  show "py_startswith (drop (m + 2) text) ''id: ''" using idp by (simp add: add.commute)
qed

lemma py_startswith_iff: "py_startswith s p \<longleftrightarrow> (\<exists>r. s = p @ r)"
  unfolding py_startswith_def by (metis append_eq_conv_conj)

lemma re_sub_no_nl:
  "NL \<notin> set s \<Longrightarrow> re_sub_line_value key repl s = s"
proof (induction s)
  case Nil
  then show ?case
    by (subst re_sub_line_value.simps) (simp add: py_startswith_def)
next
  case (Cons c cs)
  then have "\<not> py_startswith (c # cs) (NL # key @ '': '')"
    by (auto simp: py_startswith_iff)
  with Cons show ?case by (subst re_sub_line_value.simps) simp
qed

lemma re_sub_line_prefix:
  "NL \<notin> set l \<Longrightarrow>
   re_sub_line_value key repl (l @ NL # rest) = l @ re_sub_line_value key repl (NL # rest)"
proof (induction l)
  case Nil
  then show ?case by simp
next
  case (Cons c cs)
  then have "\<not> py_startswith ((c # cs) @ NL # rest) (NL # key @ '': '')"
    by (auto simp: py_startswith_iff)
  with Cons show ?case by (subst re_sub_line_value.simps) simp
qed

lemma startswith_line:
  assumes "NL \<notin> set p" "at_line_end r"
  shows "py_startswith (l @ r) p \<longleftrightarrow> py_startswith l p"
proof
  assume "py_startswith l p"
  then show "py_startswith (l @ r) p" by (auto simp: py_startswith_iff)
next
  assume a: "py_startswith (l @ r) p"
  show "py_startswith l p"
  proof (cases "length p \<le> length l")
    case True
    with a show ?thesis by (simp add: py_startswith_def)
  next
    case False
    then have r: "r \<noteq> []" using a py_startswith_length[OF a] by auto
    with assms(2) obtain r' where r': "r = NL # r'" by (auto simp: at_line_end_def)
    from a have "take (length p) (l @ NL # r') = p" by (simp add: py_startswith_def r')
    moreover have "(take (length p) (l @ NL # r')) ! length l = NL"
      using False by (simp add: nth_append)
    moreover have "length l < length p" using False by simp
    ultimately have "NL \<in> set p" by (metis nth_mem)
    with assms(1) show ?thesis by simp
  qed
qed

lemma re_sub_line:
  assumes "NL \<notin> set key" "NL \<notin> set l" "at_line_end r"
  shows "re_sub_line_value key repl (NL # l @ r) =
         NL # stamp_line key repl l @ re_sub_line_value key repl r"
proof (cases "py_startswith l (key @ '': '')")
  case True
  then obtain v where l: "l = (key @ '': '') @ v" by (auto simp: py_startswith_iff)
  then have v: "NL \<notin> set v" using assms(2) by auto
  have sw: "py_startswith (NL # l @ r) (NL # key @ '': '')"
    using l by (auto simp: py_startswith_iff)
  have "drop (length (NL # key @ '': '')) (NL # l @ r) = v @ r" using l by simp
  moreover have "dropWhile (\<lambda>c. c \<noteq> NL) (v @ r) = r"
    using v assms(3) by (auto simp: at_line_end_def dropWhile_append3 dropWhile_append1
        dropWhile_eq_Nil_conv)
  ultimately have "re_sub_line_value key repl (NL # l @ r) =
      NL # key @ '': '' @ repl @ re_sub_line_value key repl r"
    using sw by (subst re_sub_line_value.simps) (simp del: append.simps list.simps)
  with True show ?thesis by (simp add: stamp_line_def)
next
  case False
  have "NL \<notin> set (key @ '': '')" using assms(1) by simp
  then have "\<not> py_startswith (l @ r) (key @ '': '')"
    using False startswith_line[OF _ assms(3)] by blast
  then have nsw: "\<not> py_startswith (NL # l @ r) (NL # key @ '': '')"
    by (auto simp: py_startswith_iff)
  have "re_sub_line_value key repl (l @ r) = l @ re_sub_line_value key repl r"
  proof (cases "r = []")
    case True
    then show ?thesis using assms(2) by (simp add: re_sub_no_nl)
  next
    case False
    then obtain r' where "r = NL # r'" using assms(3) by (auto simp: at_line_end_def)
    then show ?thesis using assms(2) by (simp add: re_sub_line_prefix)
  qed
  then have "re_sub_line_value key repl (NL # l @ r) = NL # l @ re_sub_line_value key repl r"
    using nsw by (subst re_sub_line_value.simps) simp
  with False show ?thesis by (simp add: stamp_line_def)
qed

lemma re_sub_lines:
  assumes "NL \<notin> set key" "\<forall>l\<in>set ls. NL \<notin> set l"
  shows "re_sub_line_value key repl (concat (map (\<lambda>l. NL # l) ls)) =
         concat (map (\<lambda>l. NL # stamp_line key repl l) ls)"
  using assms(2)
proof (induction ls)
  case Nil
  then show ?case by (simp add: re_sub_no_nl)
next
  case (Cons l ls)
  have "at_line_end (concat (map (\<lambda>l. NL # l) ls))"
    by (cases ls) (auto simp: at_line_end_def)
  then have "re_sub_line_value key repl (NL # l @ concat (map (\<lambda>l. NL # l) ls)) =
      NL # stamp_line key repl l @ re_sub_line_value key repl (concat (map (\<lambda>l. NL # l) ls))"
    using Cons.prems assms(1) by (intro re_sub_line) auto
  with Cons show ?case by simp
qed

lemma py_join_concat:
  "py_join [NL] (l # ls) = l @ concat (map (\<lambda>l. NL # l) ls)"
  by (induction ls arbitrary: l) auto

lemma py_split_nonempty: "py_split c s \<noteq> []"
  by (induction s) (auto split: list.splits)

lemma py_join_Cons_Cons: "py_join sep ((a # x) # xs) = a # py_join sep (x # xs)"
  by (cases xs) auto

lemma py_join_split: "py_join [c] (py_split c s) = s"
proof (induction s)
  case Nil
  then show ?case by simp
next
  case (Cons a s)
  show ?case
  proof (cases "a = c")
    case True
    with Cons show ?thesis by (cases "py_split c s") auto
  next
    case False
    obtain x xs where sp: "py_split c s = x # xs"
      using py_split_nonempty[of c s] by (cases "py_split c s") auto
    with False Cons show ?thesis by (simp add: py_join_Cons_Cons del: py_join.simps)
  qed
qed

lemma py_split_no_sep_in: "\<forall>x\<in>set (py_split c s). c \<notin> set x"
  by (induction s) (auto split: list.splits)

lemma re_sub_join:
  assumes "NL \<notin> set key" "\<forall>l\<in>set ls. NL \<notin> set l"
  shows "re_sub_line_value key repl (py_join [NL] ls) = py_join [NL] (stamp_lines key repl ls)"
proof (cases ls)
  case Nil
  then show ?thesis by (simp add: stamp_lines_def re_sub_no_nl)
next
  case (Cons l ls')
  have l: "NL \<notin> set l" and ls': "\<forall>l\<in>set ls'. NL \<notin> set l" using assms(2) Cons by auto
  have "re_sub_line_value key repl (l @ concat (map (\<lambda>l. NL # l) ls')) =
        l @ re_sub_line_value key repl (concat (map (\<lambda>l. NL # l) ls'))"
  proof (cases ls')
    case Nil
    then show ?thesis using l by (simp add: re_sub_no_nl)
  next
    case (Cons a as)
    then show ?thesis using l by (simp add: re_sub_line_prefix)
  qed
  then show ?thesis
    using Cons re_sub_lines[OF assms(1) ls'] by (simp add: py_join_concat stamp_lines_def comp_def)
qed

lemma stamp_line_no_nl:
  "NL \<notin> set key \<Longrightarrow> NL \<notin> set now \<Longrightarrow> NL \<notin> set l \<Longrightarrow> NL \<notin> set (stamp_line key now l)"
  by (simp add: stamp_line_def)

lemma re_sub_split:
  assumes "NL \<notin> set key" "NL \<notin> set now"
  shows "py_split NL (re_sub_line_value key now s) = stamp_lines key now (py_split NL s)"
proof -
  have nl: "\<forall>l\<in>set (py_split NL s). NL \<notin> set l" by (rule py_split_no_sep_in)
  have "re_sub_line_value key now s = re_sub_line_value key now (py_join [NL] (py_split NL s))"
    by (simp add: py_join_split)
  also have "\<dots> = py_join [NL] (stamp_lines key now (py_split NL s))"
    using assms(1) nl by (rule re_sub_join)
  finally have "py_split NL (re_sub_line_value key now s) =
      py_split NL (py_join [NL] (stamp_lines key now (py_split NL s)))" by simp
  also have "\<dots> = stamp_lines key now (py_split NL s)"
  proof (rule py_split_join)
    obtain l ls where sp: "py_split NL s = l # ls"
      using py_split_nonempty[of NL s] by (cases "py_split NL s") auto
    show "stamp_lines key now (py_split NL s) \<noteq> []"
      by (simp add: sp stamp_lines_def)
    have "NL \<notin> set l" "\<forall>x\<in>set ls. NL \<notin> set x" using nl sp by auto
    then show "\<forall>x\<in>set (stamp_lines key now (py_split NL s)). NL \<notin> set x"
      using assms by (auto simp: sp stamp_lines_def stamp_line_no_nl)
  qed
  finally show ?thesis .
qed

lemma of_char_digit_char: "d < 10 \<Longrightarrow> (of_char (digit_char d) :: nat) = 48 + d"
  by (simp add: digit_char_def)

lemma is_digit_digit_char: "d < 10 \<Longrightarrow> is_digit (digit_char d)"
  by (simp add: is_digit_def of_char_digit_char)

lemma digit_char_not_nl: "d < 10 \<Longrightarrow> digit_char d \<noteq> NL"
proof
  assume "d < 10" "digit_char d = NL"
  then have "(of_char (digit_char d) :: nat) = of_char NL" by simp
  with \<open>d < 10\<close> show False by (simp add: of_char_digit_char)
qed

lemma digit_char_0: "digit_char 0 = CHR ''0''"
  by code_simp

lemma digits_lt_10: "n < 10 \<Longrightarrow> digits n = [digit_char n]"
  by (subst digits.simps) simp

lemma digits_lt_100:
  "10 \<le> n \<Longrightarrow> n < 100 \<Longrightarrow> digits n = [digit_char (n div 10), digit_char (n mod 10)]"
  by (subst digits.simps) (simp add: digits_lt_10)

lemma digits_lt_1000:
  "100 \<le> n \<Longrightarrow> n < 1000 \<Longrightarrow>
   digits n = [digit_char (n div 10 div 10), digit_char (n div 10 mod 10), digit_char (n mod 10)]"
  by (subst digits.simps) (simp add: digits_lt_100)

lemma digits_lt_10000:
  "1000 \<le> n \<Longrightarrow> n < 10000 \<Longrightarrow>
   digits n = [digit_char (n div 10 div 10 div 10), digit_char (n div 10 div 10 mod 10),
               digit_char (n div 10 mod 10), digit_char (n mod 10)]"
  by (subst digits.simps) (simp add: digits_lt_1000)

lemma zero_pad_2:
  assumes "n < 100"
  shows "\<exists>a b. zero_pad 2 n = [digit_char a, digit_char b] \<and> a < 10 \<and> b < 10"
proof (cases "n < 10")
  case True
  then have "zero_pad 2 n = [digit_char 0, digit_char n]"
    by (simp add: zero_pad_def digits_lt_10 digit_char_0)
  moreover have "(0::nat) < 10" by simp
  ultimately show ?thesis using True by blast
next
  case False
  then have "zero_pad 2 n = [digit_char (n div 10), digit_char (n mod 10)]"
    using assms by (simp add: zero_pad_def digits_lt_100)
  moreover have "n div 10 < 10" using assms by simp
  ultimately show ?thesis by (metis mod_less_divisor zero_less_numeral)
qed

lemma zero_pad_4:
  assumes "1000 \<le> n" "n < 10000"
  shows "\<exists>a b c d. zero_pad 4 n = [digit_char a, digit_char b, digit_char c, digit_char d] \<and>
           a < 10 \<and> b < 10 \<and> c < 10 \<and> d < 10"
proof -
  have "zero_pad 4 n = [digit_char (n div 10 div 10 div 10), digit_char (n div 10 div 10 mod 10),
               digit_char (n div 10 mod 10), digit_char (n mod 10)]"
    using assms by (simp add: zero_pad_def digits_lt_10000)
  moreover have "n div 10 div 10 div 10 < 10" using assms by simp
  moreover have "n div 10 div 10 mod 10 < 10" "n div 10 mod 10 < 10" "n mod 10 < 10" by simp_all
  ultimately show ?thesis by blast
qed

lemma strftime_stamp_form:
  assumes "valid_utc_time t"
  shows "stamp_form (strftime_stamp t)" and "NL \<notin> set (strftime_stamp t)"
proof -
  from assms have y: "1000 \<le> year t" "year t < 10000" and mo: "month t < 100"
    and d: "day t < 100" and h: "hour t < 100" and mi: "minute t < 100" and s: "second t < 100"
    by (auto simp: valid_utc_time_def)
  from zero_pad_4[OF y] obtain y1 y2 y3 y4 where
    Y: "zero_pad 4 (year t) = [digit_char y1, digit_char y2, digit_char y3, digit_char y4]"
       "y1 < 10" "y2 < 10" "y3 < 10" "y4 < 10" by blast
  from zero_pad_2[OF mo] obtain m1 m2 where
    M: "zero_pad 2 (month t) = [digit_char m1, digit_char m2]" "m1 < 10" "m2 < 10" by blast
  from zero_pad_2[OF d] obtain d1 d2 where
    D: "zero_pad 2 (day t) = [digit_char d1, digit_char d2]" "d1 < 10" "d2 < 10" by blast
  from zero_pad_2[OF h] obtain h1 h2 where
    H: "zero_pad 2 (hour t) = [digit_char h1, digit_char h2]" "h1 < 10" "h2 < 10" by blast
  from zero_pad_2[OF mi] obtain i1 i2 where
    I: "zero_pad 2 (minute t) = [digit_char i1, digit_char i2]" "i1 < 10" "i2 < 10" by blast
  from zero_pad_2[OF s] obtain s1 s2 where
    S: "zero_pad 2 (second t) = [digit_char s1, digit_char s2]" "s1 < 10" "s2 < 10" by blast
  have eq: "strftime_stamp t =
      [digit_char y1, digit_char y2, digit_char y3, digit_char y4, CHR ''-'',
       digit_char m1, digit_char m2, CHR ''-'', digit_char d1, digit_char d2, CHR ''T'',
       digit_char h1, digit_char h2, CHR '':'', digit_char i1, digit_char i2, CHR '':'',
       digit_char s1, digit_char s2, CHR ''.'', CHR ''0'', CHR ''0'', CHR ''0'', CHR ''Z'']"
    by (simp add: strftime_stamp_def Y(1) M(1) D(1) H(1) I(1) S(1))
  show "stamp_form (strftime_stamp t)"
    unfolding eq stamp_form_def
    using Y(2-) M(2-) D(2-) H(2-) I(2-) S(2-)
    by (simp add: is_digit_digit_char eval_nat_numeral)
  show "NL \<notin> set (strftime_stamp t)"
    unfolding eq
    using Y(2-) M(2-) D(2-) H(2-) I(2-) S(2-)
    by (simp add: digit_char_not_nl[symmetric])
qed

text \<open>
  C3, as amended. For every note text that contains a blank-line pair and the metadata
  boundary, the first blank-line pair is at or before the boundary, and the cleared text
  is the text up to the first blank-line pair, then four line feeds (the pair that ends the
  title part and the pair the boundary starts with, so three empty lines), then the text
  from \<open>id: \<close> on, in which every line but the first that starts with
  \<open>updated_time: \<close> or \<open>user_updated_time: \<close> has its value replaced by the time stamp;
  every other line is unchanged. The stamp has the form \<open>YYYY-MM-DDTHH:MM:SS.000Z\<close>.
\<close>

theorem clear_text_result:
  assumes "py_find [NL, NL] text = Some i" and "re_search_meta text = Some m"
    and "valid_utc_time t"
  shows "i \<le> m \<and> py_startswith (drop (m + 2) text) ''id: '' \<and>
     stamp_form (strftime_stamp t) \<and>
     (\<exists>cleared. clear_text (strftime_stamp t) text = Inr cleared \<and>
        py_split NL cleared =
          stamp_lines ''user_updated_time'' (strftime_stamp t)
            (stamp_lines ''updated_time'' (strftime_stamp t)
               (py_split NL (take i text @ [NL, NL, NL, NL] @ drop (m + 2) text))))"
proof -
  note cc = cleared_concat[OF assms(1,2)]
  note st = strftime_stamp_form[OF assms(3)]
  define now where "now = strftime_stamp t"
  define joined where "joined = take i text @ [NL, NL, NL, NL] @ drop (m + 2) text"
  have k1: "NL \<notin> set ''updated_time''" and k2: "NL \<notin> set ''user_updated_time''" by simp_all
  have nl: "NL \<notin> set now" using st(2) by (simp add: now_def)
  have ct: "clear_text now text =
      Inr (re_sub_line_value ''user_updated_time'' now
            (re_sub_line_value ''updated_time'' now joined))"
    using assms(1,2) cc(2) by (simp add: clear_text_def Let_def joined_def)
  have "py_split NL (re_sub_line_value ''user_updated_time'' now
            (re_sub_line_value ''updated_time'' now joined)) =
        stamp_lines ''user_updated_time'' now
          (stamp_lines ''updated_time'' now (py_split NL joined))"
    by (simp only: re_sub_split[OF k2 nl] re_sub_split[OF k1 nl])
  with ct cc(1,3) st(1) show ?thesis unfolding now_def joined_def by blast
qed

lemma example_note_find: "py_find [NL, NL] example_note = Some 5"
  by code_simp

lemma example_note_search: "re_search_meta example_note = Some 11"
  by code_simp

lemma example_time_valid: "valid_utc_time example_time"
  by (simp add: valid_utc_time_def example_time_def)

lemma example_stamp: "strftime_stamp example_time = ''2024-01-02T03:04:05.000Z''"
  by code_simp

lemma example_note_cleared:
  "clear_text ''2024-01-02T03:04:05.000Z'' example_note =
     Inr (''Title'' @ [NL, NL, NL, NL] @ ''id: 0123456789abcdef0123456789abcdef'' @ [NL] @
          ''updated_time: 2024-01-02T03:04:05.000Z'' @ [NL] @
          ''user_updated_time: 2024-01-02T03:04:05.000Z'')"
  by code_simp

theorem clear_text_result_witness:
  "(5::nat) \<le> 11 \<and> py_startswith (drop (11 + 2) example_note) ''id: '' \<and>
     stamp_form (strftime_stamp example_time) \<and>
     (\<exists>cleared. clear_text (strftime_stamp example_time) example_note = Inr cleared \<and>
        py_split NL cleared =
          stamp_lines ''user_updated_time'' (strftime_stamp example_time)
            (stamp_lines ''updated_time'' (strftime_stamp example_time)
               (py_split NL (take 5 example_note @ [NL, NL, NL, NL] @
                  drop (11 + 2) example_note))))"
  using clear_text_result[OF example_note_find example_note_search example_time_valid]
  by simp

text \<open>
  On a note with a body the cleared text has three empty lines between the title and the
  metadata, not one.
\<close>

theorem clear_text_three_blank_lines:
  "clear_text (strftime_stamp example_time) example_note =
     Inr (''Title'' @ [NL, NL, NL, NL] @ ''id: 0123456789abcdef0123456789abcdef'' @ [NL] @
          ''updated_time: 2024-01-02T03:04:05.000Z'' @ [NL] @
          ''user_updated_time: 2024-01-02T03:04:05.000Z'') \<and>
   \<not> (\<exists>cleared. clear_text (strftime_stamp example_time) example_note = Inr cleared \<and>
          py_split NL cleared =
            [''Title'', [], ''id: 0123456789abcdef0123456789abcdef'',
             ''updated_time: 2024-01-02T03:04:05.000Z'',
             ''user_updated_time: 2024-01-02T03:04:05.000Z''])"
  by (simp add: example_stamp example_note_cleared)

section \<open>Properties of the note resolution\<close>

lemma is_candidate_iff:
  "is_candidate w c note_title name p \<longleftrightarrow>
     py_endswith name ''.md'' \<and>
     (\<exists>raw. get_content w Resolve c name = Inr raw \<and> parse_joplin_item raw = Inr p) \<and>
     item_type p = 1 \<and> item_title p = note_title"
  by (auto simp: is_candidate_def split: sum.splits)

lemma candidate_notes_scan_item_list:
  "candidate_notes (scan_item w c nb t st name) = candidate_notes st @ new_candidates w c t name"
  by (simp add: scan_item_def new_candidates_def Let_def split: sum.splits)

lemma new_candidates_iff:
  "(n, p) \<in> set (new_candidates w c t name) \<longleftrightarrow> n = name \<and> is_candidate w c t n p"
proof (cases "py_endswith name ''.md''")
  case False
  then show ?thesis by (auto simp: is_candidate_iff new_candidates_def)
next
  case True
  show ?thesis
  proof (cases "get_content w Resolve c name")
    case (Inl e)
    with True show ?thesis by (auto simp: is_candidate_iff new_candidates_def)
  next
    case (Inr raw)
    show ?thesis
    proof (cases "parse_joplin_item raw")
      case (Inl e)
      with True Inr show ?thesis by (auto simp: is_candidate_iff new_candidates_def)
    next
      case pr: (Inr parsed)
      have nc: "new_candidates w c t name =
          (if item_type parsed = 1 \<and> item_title parsed = t then [(name, parsed)] else [])"
        using True Inr pr by (simp add: new_candidates_def)
      have ic: "is_candidate w c t name p \<longleftrightarrow> p = parsed \<and> item_type p = 1 \<and> item_title p = t"
        unfolding is_candidate_iff using True Inr pr by (metis sum.inject(2))
      show ?thesis
      proof (cases "n = name")
        case True
        then show ?thesis unfolding nc using ic by (cases "p = parsed") simp_all
      next
        case False
        then show ?thesis unfolding nc by simp
      qed
    qed
  qed
qed

lemma candidate_notes_scan_item:
  "(n, p) \<in> set (candidate_notes (scan_item w c nb t st name)) \<longleftrightarrow>
     (n, p) \<in> set (candidate_notes st) \<or> (n = name \<and> is_candidate w c t n p)"
  by (simp only: candidate_notes_scan_item_list set_append Un_iff new_candidates_iff)

lemma candidate_notes_foldl:
  "(n, p) \<in> set (candidate_notes (foldl (scan_item w c nb t) st names)) \<longleftrightarrow>
     (n, p) \<in> set (candidate_notes st) \<or> (n \<in> set names \<and> is_candidate w c t n p)"
proof (induction names arbitrary: st)
  case Nil
  then show ?case by simp
next
  case (Cons name names)
  show ?case
    unfolding foldl_Cons Cons.IH candidate_notes_scan_item by auto
qed

lemma candidate_notes_scan_items:
  "(n, p) \<in> set (candidate_notes (scan_items w c nb t names)) \<longleftrightarrow>
     n \<in> set names \<and> is_candidate w c t n p"
  by (simp add: scan_items_def candidate_notes_foldl)

lemma sort_key_first_least:
  assumes "sort_key f xs = y # ys"
  shows "y \<in> set xs" and "\<forall>x\<in>set xs. f y \<le> f x"
proof -
  have s: "set (sort_key f xs) = set xs" by (rule set_sort)
  with assms show "y \<in> set xs" by (metis list.set_intros(1))
  have "sorted (map f (sort_key f xs))" by (rule sorted_sort_key)
  with assms have "\<forall>x\<in>set ys. f y \<le> f x" by simp
  moreover have "set xs = insert y (set ys)" using s assms by simp
  ultimately show "\<forall>x\<in>set xs. f y \<le> f x" by auto
qed

lemma match_key_le:
  "match_key (n, p) \<le> match_key (n', p') \<longleftrightarrow>
     (item_body p \<noteq> [] \<and> item_body p' = []) \<or>
     ((item_body p = [] \<longleftrightarrow> item_body p' = []) \<and> n \<le> n')"
  by (auto simp: match_key_def less_eq_prod_def)

text \<open>
  C5. When the items could be listed and, if a notebook name was given, its folder was
  found: every match is a type-1 item with exactly the requested title (and, with a
  notebook name, with the folder's id as parent id); with no match the result is
  \<open>None\<close>; otherwise the result is the name of the first element of the matches sorted
  by the pair (body is empty, item name), which is a match with the least such pair: a
  match with a non-empty body comes before every match with an empty body, and among
  matches that agree on that, the least name wins.
\<close>

theorem find_note_item_selects:
  assumes "list_all_items w c = Inr names"
    and "st = scan_items w c notebook_name note_title names"
    and "notebook_name = [] \<or> \<not> folder_missing st"
    and "ms = note_matches notebook_name st"
  shows "(\<forall>x\<in>set ms. fst x \<in> set names \<and> is_candidate w c note_title (fst x) (snd x) \<and>
            (notebook_name = [] \<or> folder_id st = Some (item_parent_id (snd x)))) \<and>
         (ms = [] \<longrightarrow> snd (find_note_item w c notebook_name note_title) = Inr None) \<and>
         (ms \<noteq> [] \<longrightarrow>
            (\<exists>n p. snd (find_note_item w c notebook_name note_title) = Inr (Some n) \<and>
               sort_key match_key ms ! 0 = (n, p) \<and> (n, p) \<in> set ms \<and>
               (\<forall>x\<in>set ms. match_key (n, p) \<le> match_key x) \<and>
               (\<forall>x\<in>set ms. (item_body p = [] \<longrightarrow> item_body (snd x) = []) \<and>
                  ((item_body p = [] \<longleftrightarrow> item_body (snd x) = []) \<longrightarrow> n \<le> fst x))))"
proof (intro conjI impI)
  show "\<forall>x\<in>set ms. fst x \<in> set names \<and> is_candidate w c note_title (fst x) (snd x) \<and>
            (notebook_name = [] \<or> folder_id st = Some (item_parent_id (snd x)))"
  proof
    fix x assume "x \<in> set ms"
    then have "(fst x, snd x) \<in> set (candidate_notes (scan_items w c notebook_name note_title names))"
      and "notebook_name = [] \<or> folder_id st = Some (item_parent_id (snd x))"
      unfolding assms(4) assms(2) note_matches_def by (auto simp: case_prod_unfold)
    then show "fst x \<in> set names \<and> is_candidate w c note_title (fst x) (snd x) \<and>
            (notebook_name = [] \<or> folder_id st = Some (item_parent_id (snd x)))"
      unfolding candidate_notes_scan_items by simp
  qed
next
  assume "ms = []"
  then show "snd (find_note_item w c notebook_name note_title) = Inr None"
    using assms by (auto simp: find_note_item_def Let_def)
next
  assume ne: "ms \<noteq> []"
  then have "sort_key match_key ms \<noteq> []"
    by (metis set_sort set_empty)
  then obtain n p ys where sk: "sort_key match_key ms = (n, p) # ys"
    by (cases "sort_key match_key ms") auto
  have res: "snd (find_note_item w c notebook_name note_title) = Inr (Some n)"
    using assms sk by (auto simp: find_note_item_def Let_def)
  note least = sort_key_first_least[OF sk]
  have "\<forall>x\<in>set ms. (item_body p = [] \<longrightarrow> item_body (snd x) = []) \<and>
          ((item_body p = [] \<longleftrightarrow> item_body (snd x) = []) \<longrightarrow> n \<le> fst x)"
  proof
    fix x assume "x \<in> set ms"
    then have "match_key (n, p) \<le> match_key (fst x, snd x)" using least(2) by simp
    then show "(item_body p = [] \<longrightarrow> item_body (snd x) = []) \<and>
          ((item_body p = [] \<longleftrightarrow> item_body (snd x) = []) \<longrightarrow> n \<le> fst x)"
      unfolding match_key_le by auto
  qed
  with res sk least show "\<exists>n p. snd (find_note_item w c notebook_name note_title) = Inr (Some n) \<and>
               sort_key match_key ms ! 0 = (n, p) \<and> (n, p) \<in> set ms \<and>
               (\<forall>x\<in>set ms. match_key (n, p) \<le> match_key x) \<and>
               (\<forall>x\<in>set ms. (item_body p = [] \<longrightarrow> item_body (snd x) = []) \<and>
                  ((item_body p = [] \<longleftrightarrow> item_body (snd x) = []) \<longrightarrow> n \<le> fst x))"
    by auto
qed

section \<open>Properties of the orchestrator\<close>

lemma scan_events_scan_item:
  "filter is_post_or_clear (scan_events (scan_item w c nb t st name)) =
   filter is_post_or_clear (scan_events st)"
  by (simp add: scan_item_def Let_def is_post_or_clear_def split: sum.splits)

lemma scan_events_foldl:
  "filter is_post_or_clear (scan_events (foldl (scan_item w c nb t) st names)) =
   filter is_post_or_clear (scan_events st)"
  by (induction names arbitrary: st) (simp_all add: scan_events_scan_item)

lemma find_note_item_events:
  "filter is_post_or_clear (fst (find_note_item w c nb t)) = []"
proof (cases "list_all_items w c")
  case (Inl e)
  then show ?thesis by (simp add: find_note_item_def is_post_or_clear_def)
next
  case (Inr names)
  have "\<And>nb. filter is_post_or_clear (scan_events (scan_items w c nb t names)) = []"
    by (simp add: scan_items_def scan_events_foldl)
  then show ?thesis
    using Inr by (simp add: find_note_item_def Let_def is_post_or_clear_def
        split: list.splits prod.splits)
qed

lemma resolve_note_item_events:
  "filter is_post_or_clear (fst (resolve_note_item w c p)) = []"
  by (simp add: resolve_note_item_def find_note_item_events split: list.splits)

lemma fetch_note_events:
  "filter is_post_or_clear (fst (fetch_note w c n)) = []"
  by (simp add: fetch_note_def is_post_or_clear_def)

lemma load_at_tasks:
  assumes "joplin_config w = Inr (Some config)" and "config \<noteq> []"
    and "base_url = config_get config ''url'' []" and "base_url \<noteq> []"
    and "email = config_get config ''email'' []" and "email \<noteq> []"
    and "password = config_get config ''password'' []" and "password \<noteq> []"
    and "server_host = config_get config ''server_host'' []"
    and "note_path = config_get config ''note_path'' ''ingest/todo.txt''"
    and "session_token w base_url email password server_host = Inr token"
    and "c = (base_url, token, server_host)"
    and "snd (resolve_note_item w c note_path) = Inr (Some item_name)" and "item_name \<noteq> []"
    and "snd (fetch_note w c item_name) = Inr text"
  shows "load_from_joplin w api_base =
     (let evs2 = AuthRequest # fst (resolve_note_item w c note_path) @ fst (fetch_note w c item_name);
          tasks = parse_tasks text in
      if tasks = [] then (evs2 @ [Print NoTasksFound], Inr 0)
      else
        let evs = evs2 @ fst (post_tasks w api_base 0 0 tasks) @ fst (clear_note w c item_name);
            cnt = snd (post_tasks w api_base 0 0 tasks)
        in (case snd (clear_note w c item_name) of
              Inl exc \<Rightarrow>
                if is_OSError exc then (evs @ [Print (Ingested cnt)], Inr cnt)
                else (evs, Inl exc)
            | Inr u \<Rightarrow> (evs @ [Print (Ingested cnt)], Inr cnt)))"
  using assms
  by (simp add: load_from_joplin_def Let_def case_prod_unfold split: sum.splits)

lemma post_tasks_count:
  "snd (post_tasks w a i cnt tasks) =
     cnt + length (filter (\<lambda>j. post_task w a (i + j) (tasks ! j) = Inr 201) [0..<length tasks])"
proof (induction tasks arbitrary: i cnt)
  case Nil
  then show ?case by simp
next
  case (Cons task tasks)
  have upt: "[0..<length (task # tasks)] = 0 # map Suc [0..<length tasks]"
    by (simp add: upt_conv_Cons map_Suc_upt del: upt_Suc)
  have shift: "length (filter (\<lambda>j. post_task w a (i + j) ((task # tasks) ! j) = Inr 201)
                   (map Suc [0..<length tasks])) =
               length (filter (\<lambda>j. post_task w a (Suc i + j) (tasks ! j) = Inr 201)
                   [0..<length tasks])"
    by (simp add: filter_map comp_def)
  show ?case
  proof (cases "post_task w a i task")
    case (Inl e)
    then show ?thesis
      unfolding upt using shift Cons.IH[of "Suc i" cnt]
      by (simp add: case_prod_unfold)
  next
    case (Inr status)
    then show ?thesis
      unfolding upt using shift Cons.IH[of "Suc i"]
      by (simp add: case_prod_unfold)
  qed
qed

lemma messages_append: "messages (xs @ ys) = messages xs @ messages ys"
  by (induction xs rule: messages.induct) auto

lemma messages_scan_item:
  "messages (scan_events (scan_item w c nb t st name)) = messages (scan_events st)"
  by (simp add: scan_item_def Let_def messages_append split: sum.splits)

lemma messages_scan_foldl:
  "messages (scan_events (foldl (scan_item w c nb t) st names)) = messages (scan_events st)"
  by (induction names arbitrary: st) (simp_all add: messages_scan_item)

lemma messages_find_note_item: "messages (fst (find_note_item w c nb t)) = []"
proof (cases "list_all_items w c")
  case (Inl e)
  then show ?thesis by (simp add: find_note_item_def)
next
  case (Inr names)
  have "\<And>nb. messages (scan_events (scan_items w c nb t names)) = []"
    by (simp add: scan_items_def messages_scan_foldl)
  then show ?thesis
    using Inr by (simp add: find_note_item_def Let_def split: list.splits prod.splits)
qed

lemma messages_resolve_note_item: "messages (fst (resolve_note_item w c p)) = []"
  by (simp add: resolve_note_item_def messages_find_note_item split: list.splits)

lemma messages_fetch_note: "messages (fst (fetch_note w c n)) = []"
  by (simp add: fetch_note_def)

lemma messages_clear_note: "messages (fst (clear_note w c n)) = []"
  by (simp add: clear_note_def split: sum.splits)

lemma messages_post_tasks:
  "list_all is_post_failed (messages (fst (post_tasks w a i cnt tasks)))"
proof (induction tasks arbitrary: i cnt)
  case Nil
  then show ?case by simp
next
  case (Cons task tasks)
  show ?case
  proof (cases "post_task w a i task")
    case (Inl e)
    then show ?thesis
      using Cons.IH[of "Suc i" cnt] by (simp add: case_prod_unfold Let_def is_post_failed_def)
  next
    case (Inr status)
    then show ?thesis
      using Cons.IH[of "Suc i"] by (simp add: case_prod_unfold Let_def)
  qed
qed

text \<open>
  C4, as amended. When the pipeline has reached its last step (a complete configuration,
  a session, a resolved note and a fetched body with at least one task) and clearing the
  note fails with a transport error (\<open>URLError\<close> or another \<open>OSError\<close>):
  \<open>load_from_joplin\<close> does not raise, it returns the number of tasks whose POST was
  answered with status 201, and the failure is not reported: the only messages printed
  are those of failed POSTs and the final count.
\<close>

theorem clear_failure_handling:
  assumes "joplin_config w = Inr (Some config)" and "config \<noteq> []"
    and "base_url = config_get config ''url'' []" and "base_url \<noteq> []"
    and "email = config_get config ''email'' []" and "email \<noteq> []"
    and "password = config_get config ''password'' []" and "password \<noteq> []"
    and "server_host = config_get config ''server_host'' []"
    and "note_path = config_get config ''note_path'' ''ingest/todo.txt''"
    and "session_token w base_url email password server_host = Inr token"
    and "c = (base_url, token, server_host)"
    and "snd (resolve_note_item w c note_path) = Inr (Some item_name)" and "item_name \<noteq> []"
    and "snd (fetch_note w c item_name) = Inr text"
    and "tasks = parse_tasks text" and "tasks \<noteq> []"
    and "cnt = length (filter (\<lambda>j. post_task w api_base j (tasks ! j) = Inr 201)
                   [0..<length tasks])"
    and "snd (clear_note w c item_name) = Inl e" and "is_OSError e"
  shows "load_from_joplin w api_base =
           (AuthRequest # fst (resolve_note_item w c note_path) @ fst (fetch_note w c item_name) @
              fst (post_tasks w api_base 0 0 tasks) @ fst (clear_note w c item_name) @
              [Print (Ingested cnt)],
            Inr cnt) \<and>
         messages (fst (load_from_joplin w api_base)) =
           messages (fst (post_tasks w api_base 0 0 tasks)) @ [Ingested cnt] \<and>
         list_all is_post_failed (messages (fst (post_tasks w api_base 0 0 tasks)))"
proof -
  note load = load_at_tasks[OF assms(1-15), of api_base]
  have cnt: "snd (post_tasks w api_base 0 0 tasks) = cnt"
    using post_tasks_count[of w api_base 0 0 tasks] assms(18) by simp
  have l: "load_from_joplin w api_base =
           (AuthRequest # fst (resolve_note_item w c note_path) @ fst (fetch_note w c item_name) @
              fst (post_tasks w api_base 0 0 tasks) @ fst (clear_note w c item_name) @
              [Print (Ingested cnt)],
            Inr cnt)"
    using load assms(16,17,19,20) cnt by (simp add: Let_def)
  have m: "messages (fst (load_from_joplin w api_base)) =
           messages (fst (post_tasks w api_base 0 0 tasks)) @ [Ingested cnt]"
    unfolding l
    by (simp add: messages_append messages_resolve_note_item messages_fetch_note
        messages_clear_note)
  from l m messages_post_tasks[of w api_base 0 0 tasks] show ?thesis by blast
qed


text \<open>
  C6. When the fetched note body has no task entry (the empty body has none),
  \<open>load_from_joplin\<close> returns 0 and among its requests there is no POST of a task and
  no request of \<open>clear_note\<close>.
\<close>

theorem no_tasks_no_effects:
  assumes "joplin_config w = Inr (Some config)" and "config \<noteq> []"
    and "base_url = config_get config ''url'' []" and "base_url \<noteq> []"
    and "email = config_get config ''email'' []" and "email \<noteq> []"
    and "password = config_get config ''password'' []" and "password \<noteq> []"
    and "server_host = config_get config ''server_host'' []"
    and "note_path = config_get config ''note_path'' ''ingest/todo.txt''"
    and "session_token w base_url email password server_host = Inr token"
    and "c = (base_url, token, server_host)"
    and "snd (resolve_note_item w c note_path) = Inr (Some item_name)" and "item_name \<noteq> []"
    and "snd (fetch_note w c item_name) = Inr text"
    and "parse_tasks text = []"
  shows "snd (load_from_joplin w api_base) = Inr 0 \<and>
         filter is_post_or_clear (fst (load_from_joplin w api_base)) = [] \<and>
         parse_tasks [] = []"
proof -
  note load = load_at_tasks[OF assms(1-15), of api_base]
  have "load_from_joplin w api_base =
      ((AuthRequest # fst (resolve_note_item w c note_path) @ fst (fetch_note w c item_name)) @
         [Print NoTasksFound], Inr 0)"
    using load assms(16) by (simp add: Let_def)
  moreover have "parse_tasks [] = []" by code_simp
  moreover have "\<not> is_post_or_clear AuthRequest" "\<not> is_post_or_clear (Print NoTasksFound)"
    by (simp_all add: is_post_or_clear_def)
  ultimately show ?thesis
    by (simp add: resolve_note_item_events fetch_note_events)
qed

lemma ex_c_propagates:
  "snd (load_from_joplin example_world_c ''http://api'') = Inl ValueError"
  by code_simp

lemma ex_c_posted:
  "filter is_post_or_clear (fst (load_from_joplin example_world_c ''http://api'')) =
     [PostTask \<lparr>date = ''2024-01-01'', headline = ''Buy milk'', context_str = []\<rparr>,
      GetContent Clear ''c.md'']"
  by code_simp

lemma ex_c_no_boundary: "re_search_meta note_c_text = None"
  by code_simp

text \<open>
  A note whose id line does not follow an empty line is parsed and its task is posted,
  but clearing it raises the format error, which \<open>load_from_joplin\<close> does not catch.
\<close>

theorem clear_format_error_propagates:
  "re_search_meta note_c_text = None \<and>
   get_content example_world_c Clear example_conn ''c.md'' = Inr note_c_text \<and>
   filter is_post_or_clear (fst (load_from_joplin example_world_c ''http://api'')) =
     [PostTask \<lparr>date = ''2024-01-01'', headline = ''Buy milk'', context_str = []\<rparr>,
      GetContent Clear ''c.md''] \<and>
   snd (load_from_joplin example_world_c ''http://api'') = Inl ValueError \<and>
   \<not> (\<exists>n. snd (load_from_joplin example_world_c ''http://api'') = Inr n)"
  using ex_c_propagates ex_c_posted ex_c_no_boundary
  by (simp add: example_world_c_def example_world_def example_content_def)

theorem clear_failure_handling_witness:
  "snd (clear_note example_world_put_fails example_conn ''b.md'') = Inl URLError \<and>
   snd (load_from_joplin example_world_put_fails ''http://api'') = Inr 2 \<and>
   messages (fst (load_from_joplin example_world_put_fails ''http://api'')) = [Ingested 2]"
proof -
  let ?w = example_world_put_fails
  let ?cfg = "[(''url'', ''http://joplin''), (''email'', ''me@example.org''),
               (''password'', ''secret'')]"
  have h1: "joplin_config ?w = Inr (Some ?cfg)"
    by (simp add: example_world_put_fails_def example_world_def)
  have h2: "?cfg \<noteq> []" by simp
  have h3: "''http://joplin'' = config_get ?cfg ''url'' []" by (simp add: config_get_def)
  have h4: "''http://joplin'' \<noteq> []" by simp
  have h5: "''me@example.org'' = config_get ?cfg ''email'' []" by (simp add: config_get_def)
  have h6: "''me@example.org'' \<noteq> []" by simp
  have h7: "''secret'' = config_get ?cfg ''password'' []" by (simp add: config_get_def)
  have h8: "''secret'' \<noteq> []" by simp
  have h9: "[] = config_get ?cfg ''server_host'' []" by (simp add: config_get_def)
  have h10: "''ingest/todo.txt'' = config_get ?cfg ''note_path'' ''ingest/todo.txt''"
    by (simp add: config_get_def)
  have h11: "session_token ?w ''http://joplin'' ''me@example.org'' ''secret'' [] = Inr ''token''"
    by (simp add: example_world_put_fails_def example_world_def)
  have h12: "example_conn = (''http://joplin'', ''token'', [])" by (simp add: example_conn_def)
  have h13: "snd (resolve_note_item ?w example_conn ''ingest/todo.txt'') = Inr (Some ''b.md'')"
    by code_simp
  have h14: "''b.md'' \<noteq> []" by simp
  have h15: "snd (fetch_note ?w example_conn ''b.md'') = Inr example_body" by code_simp
  have h16: "parse_tasks example_body = parse_tasks example_body" by simp
  have h17: "parse_tasks example_body \<noteq> []" by code_simp
  have h18: "2 = length (filter (\<lambda>j. post_task ?w ''http://api'' j (parse_tasks example_body ! j)
                = Inr 201) [0..<length (parse_tasks example_body)])"
    by code_simp
  have cl: "snd (clear_note ?w example_conn ''b.md'') = Inl URLError" by code_simp
  have os: "is_OSError URLError" by (simp add: is_OSError_def)
  have pm: "messages (fst (post_tasks ?w ''http://api'' 0 0 (parse_tasks example_body))) = []"
    by code_simp
  note th = clear_failure_handling[OF h1 h2 h3 h4 h5 h6 h7 h8 h9 h10 h11 h12 h13 h14 h15 h16 h17
      h18 cl os]
  from th have "snd (load_from_joplin ?w ''http://api'') = Inr 2"
    by (metis snd_conv)
  moreover from th pm have "messages (fst (load_from_joplin ?w ''http://api'')) = [Ingested 2]"
    by (metis append_Nil)
  ultimately show ?thesis using cl by blast
qed

theorem no_tasks_no_effects_witness:
  "snd (load_from_joplin example_world_a ''http://api'') = Inr 0 \<and>
   filter is_post_or_clear (fst (load_from_joplin example_world_a ''http://api'')) = []"
proof -
  let ?w = example_world_a
  let ?cfg = "[(''url'', ''http://joplin''), (''email'', ''me@example.org''),
               (''password'', ''secret'')]"
  have h1: "joplin_config ?w = Inr (Some ?cfg)"
    by (simp add: example_world_a_def example_world_def)
  have h2: "?cfg \<noteq> []" by simp
  have h3: "''http://joplin'' = config_get ?cfg ''url'' []" by (simp add: config_get_def)
  have h4: "''http://joplin'' \<noteq> []" by simp
  have h5: "''me@example.org'' = config_get ?cfg ''email'' []" by (simp add: config_get_def)
  have h6: "''me@example.org'' \<noteq> []" by simp
  have h7: "''secret'' = config_get ?cfg ''password'' []" by (simp add: config_get_def)
  have h8: "''secret'' \<noteq> []" by simp
  have h9: "[] = config_get ?cfg ''server_host'' []" by (simp add: config_get_def)
  have h10: "''ingest/todo.txt'' = config_get ?cfg ''note_path'' ''ingest/todo.txt''"
    by (simp add: config_get_def)
  have h11: "session_token ?w ''http://joplin'' ''me@example.org'' ''secret'' [] = Inr ''token''"
    by (simp add: example_world_a_def example_world_def)
  have h12: "example_conn = (''http://joplin'', ''token'', [])" by (simp add: example_conn_def)
  have h13: "snd (resolve_note_item ?w example_conn ''ingest/todo.txt'') = Inr (Some ''a.md'')"
    by code_simp
  have h14: "''a.md'' \<noteq> []" by simp
  have h15: "snd (fetch_note ?w example_conn ''a.md'') = Inr []" by code_simp
  have h16: "parse_tasks [] = []" by code_simp
  from no_tasks_no_effects[OF h1 h2 h3 h4 h5 h6 h7 h8 h9 h10 h11 h12 h13 h14 h15 h16]
  show ?thesis by blast
qed

theorem find_note_item_selects_witness:
  "snd (find_note_item example_world example_conn ''ingest'' ''todo.txt'') = Inr (Some ''b.md'')"
proof -
  let ?names = "[''a.md'', ''b.md'', ''f.md'', ''x.txt'']"
  let ?st = "scan_items example_world example_conn ''ingest'' ''todo.txt'' ?names"
  let ?ms = "note_matches ''ingest'' ?st"
  have h1: "list_all_items example_world example_conn = Inr ?names"
    by (simp add: example_world_def)
  have h3: "''ingest'' = [] \<or> \<not> folder_missing ?st" by code_simp
  have ne: "?ms \<noteq> []" by code_simp
  have first: "fst (sort_key match_key ?ms ! 0) = ''b.md''" by code_simp
  from find_note_item_selects[OF h1 refl h3 refl]
  have "?ms \<noteq> [] \<longrightarrow>
     (\<exists>n p. snd (find_note_item example_world example_conn ''ingest'' ''todo.txt'') = Inr (Some n) \<and>
        sort_key match_key ?ms ! 0 = (n, p))"
    by blast
  with ne first show ?thesis by auto
qed

section \<open>Properties of the task routes\<close>


lemma select_by_id_Some:
  "select_by_id t tid = Some r \<Longrightarrow> r \<in> set t \<and> task_id r = tid"
  by (auto simp: select_by_id_def find_Some_iff)






section \<open>Properties of the window query\<close>






































end
